theory Spec2Isabelle
  imports Main "HOL-Library.Multiset"
begin

section \<open>JavaScript arrays as used by the scoring engine\<close>

text \<open>
  The per-game arrays of a Score are sparse: \<^verbatim>\<open>this.scores[game.index] = score\<close> past the
  end of the array leaves holes. An array with holes is an \<open>option\<close> list, \<open>None\<close> being a
  hole. All point values are small integers, on which JavaScript's numbers are exact.
\<close>

definition assign :: "'a option list \<Rightarrow> nat \<Rightarrow> 'a \<Rightarrow> 'a option list" where
  \<comment> \<open>\<^verbatim>\<open>a[i] = v\<close>: overwrite in range, extend with holes out of range.\<close>
  "assign a i v =
     (if i < length a then a[i := Some v]
      else a @ replicate (i - length a) None @ [Some v])"

definition at :: "'a option list \<Rightarrow> nat \<Rightarrow> 'a option" where
  \<comment> \<open>\<^verbatim>\<open>a[i]\<close>: a hole and an index past the end both read as undefined.\<close>
  "at a i = (if i < length a then a ! i else None)"

fun present :: "'a option list \<Rightarrow> 'a list" where
  \<comment> \<open>The elements an array iteration method visits: holes are skipped.\<close>
  "present [] = []"
| "present (None # a) = present a"
| "present (Some v # a) = v # present a"

definition sum_js :: "int list \<Rightarrow> int" where
  \<comment> \<open>\<^verbatim>\<open>Array.prototype.sum\<close>: \<^verbatim>\<open>this.reduce(function(a, b) { return a + b}, 0)\<close>.\<close>
  "sum_js a = foldl (\<lambda>a b. a + b) 0 a"

fun indexOf :: "'a list \<Rightarrow> 'a \<Rightarrow> int" where
  \<comment> \<open>\<^verbatim>\<open>a.indexOf(x)\<close>: the first index holding \<open>x\<close>, or \<open>-1\<close>.\<close>
  "indexOf [] x = -1"
| "indexOf (y # ys) x =
     (if y = x then 0
      else (let r = indexOf ys x in if r = -1 then -1 else r + 1))"

text \<open>
  \<^verbatim>\<open>Array.prototype.sort(compare)\<close> belongs to the engine. ECMAScript requires the result
  to be a permutation ordered by a consistent comparator and, since ECMAScript 2019, the
  sort to be stable. It is modelled by a stable insertion sort driven by the comparator:
  an element goes in front of the first one it compares strictly below.
\<close>

fun sort_insert :: "('a \<Rightarrow> 'a \<Rightarrow> int) \<Rightarrow> 'a \<Rightarrow> 'a list \<Rightarrow> 'a list" where
  "sort_insert compare x [] = [x]"
| "sort_insert compare x (y # ys) =
     (if compare x y < 0 then x # y # ys else y # sort_insert compare x ys)"

definition sort_js :: "('a \<Rightarrow> 'a \<Rightarrow> int) \<Rightarrow> 'a list \<Rightarrow> 'a list" where
  "sort_js compare a = foldl (\<lambda>sorted x. sort_insert compare x sorted) [] a"

section \<open>Player\<close>

text \<open>
  Player objects are compared with \<^verbatim>\<open>===\<close>, by reference. Every Player the engine meets is
  an element of the one \<^verbatim>\<open>players\<close> directory, where \<^verbatim>\<open>addPlayer\<close> gives each a distinct id,
  so reference equality is equality of the records.
\<close>

record player =
  player_id :: nat
  player_name :: string

section \<open>Score\<close>

text \<open>
  \<^verbatim>\<open>getAveragePointsPerGame\<close> divides in floating point and formats the quotient with
  \<^verbatim>\<open>toFixed(1)\<close>; it is not modelled. It reads nothing but \<^verbatim>\<open>getGameScores()\<close>.
\<close>

record score =
  player :: player
  scores :: "int option list"
  bonusPoints :: "int option list"
  wins :: nat

definition new_Score :: "player \<Rightarrow> score" where
  "new_Score p = \<lparr>player = p, scores = [], bonusPoints = [], wins = 0\<rparr>"

fun score_index :: "player \<Rightarrow> score list \<Rightarrow> nat option" where
  \<comment> \<open>The search loop of \<^verbatim>\<open>Score.getOrCreate\<close>: the first index whose Score is the player's.\<close>
  "score_index p [] = None"
| "score_index p (s # ss) =
     (if p = player s then Some 0 else map_option Suc (score_index p ss))"

definition Score_getOrCreate :: "player \<Rightarrow> score list \<Rightarrow> nat \<times> score list" where
  \<comment> \<open>Returns the position of the Score object in the (possibly extended) collection.\<close>
  "Score_getOrCreate p ss =
     (case score_index p ss of
        Some i \<Rightarrow> (i, ss)
      | None \<Rightarrow> (length ss, ss @ [new_Score p]))"

definition reset :: "score \<Rightarrow> score" where
  "reset s = s\<lparr>scores := [], bonusPoints := [], wins := 0\<rparr>"

definition win :: "score \<Rightarrow> score" where
  "win s = s\<lparr>wins := wins s + 1\<rparr>"

definition getGameScores :: "score \<Rightarrow> int list" where
  "getGameScores s = present (scores s)"

definition getGamesPlayed :: "score \<Rightarrow> nat" where
  "getGamesPlayed s = length (getGameScores s)"

definition getBonusPoints :: "score \<Rightarrow> int" where
  "getBonusPoints s = sum_js (present (bonusPoints s))"

fun min_js :: "int \<Rightarrow> int list \<Rightarrow> int" where
  "min_js m [] = m"
| "min_js m (x # xs) = min_js (if x < m then x else m) xs"

definition getLowestWeeklyPoints :: "score \<Rightarrow> int" where
  "getLowestWeeklyPoints s =
     (case getGameScores s of [] \<Rightarrow> 0 | x # xs \<Rightarrow> min_js x xs)"

definition getOverallScore :: "score \<Rightarrow> int" where
  "getOverallScore s = sum_js (take 9 (sort_js (\<lambda>a b. b - a) (getGameScores s)))"

section \<open>Game\<close>

text \<open>
  A date is the triple (year, month, day) that \<^verbatim>\<open>getFullYear\<close>, \<^verbatim>\<open>getMonth\<close> and \<^verbatim>\<open>getDate\<close>
  read. \<open>results\<close> is a dense array of Players. The \<^verbatim>\<open>season\<close> back link and the \<^verbatim>\<open>story\<close>
  log are left out: no scoring function reads them.
\<close>

type_synonym date = "int \<times> int \<times> int"

record game =
  game_index :: "nat option"
  date :: date
  results :: "player list"
  knockouts :: "(player \<times> player) list"
  bountyPlayers :: "player list option"
  fishChipper :: "player option"

definition new_Game :: "date \<Rightarrow> player list \<Rightarrow> (player \<times> player) list option \<Rightarrow> game" where
  \<comment> \<open>The third argument may be left out; \<^verbatim>\<open>knockouts || []\<close> then gives the empty array.\<close>
  "new_Game d r k =
     \<lparr>game_index = None, date = d, results = r,
      knockouts = (case k of None \<Rightarrow> [] | Some ks \<Rightarrow> ks),
      bountyPlayers = None, fishChipper = None\<rparr>"

datatype error = InvalidGameError

definition construct_Game ::
  "date \<Rightarrow> player list \<Rightarrow> (player \<times> player) list option \<Rightarrow> error + game" where
  \<comment> \<open>The outcome of \<^verbatim>\<open>new Game(date, results, knockouts)\<close>: the constructor body holds no
      \<^verbatim>\<open>throw\<close> and calls nothing, so every call returns the object.\<close>
  "construct_Game d r k = Inr (new_Game d r k)"

definition setScore :: "game \<Rightarrow> int \<Rightarrow> score \<Rightarrow> score" where
  \<comment> \<open>With \<^verbatim>\<open>game.index\<close> still null the store goes to the property \<^verbatim>\<open>"null"\<close>, which is no
      array element.\<close>
  "setScore g v s =
     (case game_index g of None \<Rightarrow> s | Some i \<Rightarrow> s\<lparr>scores := assign (scores s) i v\<rparr>)"

definition setBonusPoints :: "game \<Rightarrow> int \<Rightarrow> score \<Rightarrow> score" where
  "setBonusPoints g v s =
     (case game_index g of None \<Rightarrow> s
      | Some i \<Rightarrow> s\<lparr>bonusPoints := assign (bonusPoints s) i v\<rparr>)"

fun bounty_scan :: "player list \<Rightarrow> player list \<Rightarrow> player list \<Rightarrow> player list" where
  \<comment> \<open>The first loop of \<^verbatim>\<open>setPreviousGameInfo\<close>, over the rest of the previous results.\<close>
  "bounty_scan res [] bounty = bounty"
| "bounty_scan res (p # ps) bounty =
     (if length bounty < 3
      then bounty_scan res ps (if indexOf res p \<noteq> -1 then bounty @ [p] else bounty)
      else bounty)"

fun fish_scan :: "player list \<Rightarrow> player list \<Rightarrow> nat \<Rightarrow> player option \<Rightarrow> player option" where
  \<comment> \<open>The second loop, counting down; \<open>fish_scan res prev n f\<close> has indices below \<open>n\<close> left.\<close>
  "fish_scan res prev 0 fish = fish"
| "fish_scan res prev (Suc i) fish =
     (if indexOf res (prev ! i) \<noteq> -1 then Some (prev ! i) else fish_scan res prev i fish)"

definition setPreviousGameInfo :: "game \<Rightarrow> game \<Rightarrow> game" where
  "setPreviousGameInfo g previousGame =
     g\<lparr>bountyPlayers := Some (bounty_scan (results g) (results previousGame) []),
       fishChipper :=
         fish_scan (results g) (results previousGame) (length (results previousGame))
           (fishChipper g)\<rparr>"

definition DEFAULT_POINTS :: "int list" where
  "DEFAULT_POINTS = [15, 13, 11, 9, 7, 5, 4, 3, 2, 1]"

definition FISH_CHIP_BONUS :: int where
  "FISH_CHIP_BONUS = 1"

definition BOUNTY_BONUS :: int where
  "BOUNTY_BONUS = 1"

definition getPaidPlayers :: "game \<Rightarrow> player list" where
  "getPaidPlayers g =
     (let playerCount = length (results g);
          paid = (playerCount - (playerCount mod 3)) div 3
      in take paid (results g))"

definition calculateFishChipBonus :: "game \<Rightarrow> player \<Rightarrow> int" where
  "calculateFishChipBonus g p =
     (if Some p = fishChipper g
      then (if indexOf (getPaidPlayers g) p \<noteq> -1 then 0 + FISH_CHIP_BONUS else 0)
      else 0)"

fun bounty_loop :: "player list \<Rightarrow> player \<Rightarrow> (player \<times> player) list \<Rightarrow> int \<Rightarrow> int" where
  "bounty_loop bounty p [] bountyBonus = bountyBonus"
| "bounty_loop bounty p (knockout # kos) bountyBonus =
     bounty_loop bounty p kos
       (if fst knockout = p \<and> indexOf bounty (snd knockout) \<noteq> -1
        then bountyBonus + BOUNTY_BONUS else bountyBonus)"

definition calculateBountyBonus :: "game \<Rightarrow> player \<Rightarrow> int" where
  "calculateBountyBonus g p =
     (case bountyPlayers g of
        None \<Rightarrow> 0
      | Some bounty \<Rightarrow> bounty_loop bounty p (knockouts g) 0)"

fun push_extra :: "int list \<Rightarrow> nat \<Rightarrow> int list" where
  \<comment> \<open>\<^verbatim>\<open>while (extraPoints > 0) { points.push(extraPoints); extraPoints-- }\<close>\<close>
  "push_extra points 0 = points"
| "push_extra points (Suc e) = push_extra (points @ [int (Suc e)]) e"

definition adjust_points :: "nat \<Rightarrow> int list" where
  \<comment> \<open>The \<^verbatim>\<open>points\<close> array of \<^verbatim>\<open>calculateScores\<close> for a game of \<open>n\<close> finishers.\<close>
  "adjust_points n =
     (let points = DEFAULT_POINTS
      in if n > length points
         then (let extraPoints = n - length points
               in push_extra (map (\<lambda>score. score + int extraPoints) points) extraPoints)
         else points)"

definition score_finisher :: "game \<Rightarrow> int list \<Rightarrow> score list \<Rightarrow> nat \<Rightarrow> score list" where
  \<comment> \<open>One round of the loop of \<^verbatim>\<open>calculateScores\<close>, for the finisher at index \<open>i\<close>.\<close>
  "score_finisher g points ss i =
     (let p = results g ! i;
          (k, ss') = Score_getOrCreate p ss;
          placeScore = points ! i;
          bonus = calculateFishChipBonus g p + calculateBountyBonus g p;
          s0 = ss' ! k;
          s1 = (if i = 0 then win s0 else s0);
          s2 = setScore g (placeScore + bonus) s1;
          s3 = setBonusPoints g bonus s2
      in ss'[k := s3])"

definition calculateScores :: "game \<Rightarrow> score list \<Rightarrow> score list" where
  "calculateScores g ss =
     foldl (score_finisher g (adjust_points (length (results g)))) ss
       [0..<length (results g)]"

definition placement :: "nat \<Rightarrow> int list" where
  \<comment> \<open>The entries \<^verbatim>\<open>points[i]\<close> that the loop of \<^verbatim>\<open>calculateScores\<close> reads, \<open>i < n\<close>.\<close>
  "placement n = map (\<lambda>i. adjust_points n ! i) [0..<n]"

section \<open>Season\<close>

record season =
  season_name :: string
  games :: "game list"
  season_scores :: "score list"

definition new_Season :: "string \<Rightarrow> season" where
  "new_Season n = \<lparr>season_name = n, games = [], season_scores = []\<rparr>"

definition sortScores :: "season \<Rightarrow> season" where
  "sortScores s =
     s\<lparr>season_scores :=
         sort_js (\<lambda>a b. getOverallScore b - getOverallScore a) (season_scores s)\<rparr>"

definition falsy :: "bool option \<Rightarrow> bool" where
  \<comment> \<open>\<^verbatim>\<open>!sortScores\<close> for an argument left out (\<open>None\<close>) or a boolean.\<close>
  "falsy flag = (case flag of None \<Rightarrow> True | Some b \<Rightarrow> \<not> b)"

definition addGame :: "season \<Rightarrow> game \<Rightarrow> bool option \<Rightarrow> season" where
  "addGame s g0 flag =
     (let g1 = (if length (games s) \<noteq> 0 then setPreviousGameInfo g0 (last (games s)) else g0);
          g2 = g1\<lparr>game_index := Some (length (games s))\<rparr>;
          s1 = s\<lparr>games := games s @ [g2]\<rparr>;
          s2 = s1\<lparr>season_scores := calculateScores g2 (season_scores s1)\<rparr>
      in if falsy flag then sortScores s2 else s2)"

section \<open>The seasons of the program\<close>

text \<open>
  A Season starts as \<^verbatim>\<open>new Season(name)\<close> and grows by \<^verbatim>\<open>season.addGame(new Game(...))\<close>:
  the form handler leaves the second argument out, \<^verbatim>\<open>Season.fromObject\<close> passes \<^verbatim>\<open>false\<close>.
  An entry is the date, results and knockouts given to the constructor, and that flag.
\<close>

type_synonym entry = "date \<times> player list \<times> (player \<times> player) list option \<times> bool option"

definition add_entry :: "season \<Rightarrow> entry \<Rightarrow> season" where
  "add_entry s e = (case e of (d, r, k, flag) \<Rightarrow> addGame s (new_Game d r k) flag)"

definition season_of :: "string \<Rightarrow> entry list \<Rightarrow> season" where
  "season_of n es = foldl add_entry (new_Season n) es"

definition directory :: "player list \<Rightarrow> bool" where
  \<comment> \<open>\<^verbatim>\<open>addPlayer\<close> pushes \<^verbatim>\<open>new Player(players.length, name)\<close>: the id is the position.\<close>
  "directory players = (map (\<lambda>p. player_id p) players = [0..<length players])"

section \<open>Results arrays with unfilled positions\<close>

text \<open>
  The form handler builds the results by \<^verbatim>\<open>playerPositions[position - 1] = players[playerIndex]\<close>,
  so a finishing position that nobody is given is a hole of the array, and the constructor
  stores the array as it is. Saving writes a hole as \<^verbatim>\<open>null\<close>, and loading reads
  \<^verbatim>\<open>players[null]\<close>, which is \<^verbatim>\<open>undefined\<close>: the reloaded array has an element there.
  This section is the engine on such arrays. A slot is \<open>None\<close> for a hole and \<open>Some v\<close>
  for an element, and a value \<open>v\<close> is \<^verbatim>\<open>undefined\<close> or a Player. On dense arrays of
  Players it is the engine of the sections above (lemma \<open>addGame_raw_lift\<close>).
\<close>

datatype ref = Undefined | Ref player

datatype js_error = TypeError

definition slot_value :: "ref option \<Rightarrow> ref" where
  \<comment> \<open>Reading a hole gives \<^verbatim>\<open>undefined\<close>.\<close>
  "slot_value slot = (case slot of None \<Rightarrow> Undefined | Some v \<Rightarrow> v)"

definition read :: "ref option list \<Rightarrow> nat \<Rightarrow> ref" where
  \<comment> \<open>\<^verbatim>\<open>a[i]\<close>\<close>
  "read a i = (if i < length a then slot_value (a ! i) else Undefined)"

fun indexOf_holes :: "'a option list \<Rightarrow> 'a \<Rightarrow> int" where
  \<comment> \<open>\<^verbatim>\<open>a.indexOf(x)\<close> skips holes, and finds an element that is \<^verbatim>\<open>undefined\<close>.\<close>
  "indexOf_holes [] x = -1"
| "indexOf_holes (slot # a) x =
     (if slot = Some x then 0
      else (let r = indexOf_holes a x in if r = -1 then -1 else r + 1))"

record raw_score =
  raw_player :: ref
  raw_scores :: "int option list"
  raw_bonusPoints :: "int option list"
  raw_wins :: nat

definition new_Score_raw :: "ref \<Rightarrow> raw_score" where
  "new_Score_raw p = \<lparr>raw_player = p, raw_scores = [], raw_bonusPoints = [], raw_wins = 0\<rparr>"

fun raw_score_index :: "ref \<Rightarrow> raw_score list \<Rightarrow> nat option" where
  "raw_score_index p [] = None"
| "raw_score_index p (s # ss) =
     (if p = raw_player s then Some 0 else map_option Suc (raw_score_index p ss))"

definition Score_getOrCreate_raw :: "ref \<Rightarrow> raw_score list \<Rightarrow> nat \<times> raw_score list" where
  "Score_getOrCreate_raw p ss =
     (case raw_score_index p ss of
        Some i \<Rightarrow> (i, ss)
      | None \<Rightarrow> (length ss, ss @ [new_Score_raw p]))"

definition win_raw :: "raw_score \<Rightarrow> raw_score" where
  "win_raw s = s\<lparr>raw_wins := raw_wins s + 1\<rparr>"

definition getGameScores_raw :: "raw_score \<Rightarrow> int list" where
  "getGameScores_raw s = present (raw_scores s)"

definition getOverallScore_raw :: "raw_score \<Rightarrow> int" where
  "getOverallScore_raw s =
     sum_js (take 9 (sort_js (\<lambda>a b. b - a) (getGameScores_raw s)))"

definition getGamesPlayed_raw :: "raw_score \<Rightarrow> nat" where
  "getGamesPlayed_raw s = length (getGameScores_raw s)"

definition getBonusPoints_raw :: "raw_score \<Rightarrow> int" where
  "getBonusPoints_raw s = sum_js (present (raw_bonusPoints s))"

definition getLowestWeeklyPoints_raw :: "raw_score \<Rightarrow> int" where
  "getLowestWeeklyPoints_raw s =
     (case getGameScores_raw s of [] \<Rightarrow> 0 | x # xs \<Rightarrow> min_js x xs)"

record raw_game =
  raw_index :: "nat option"
  raw_date :: date
  raw_results :: "ref option list"
  raw_knockouts :: "(ref \<times> ref) list"
  raw_bountyPlayers :: "ref list option"
  raw_fishChipper :: "ref option"

definition new_Game_raw ::
  "date \<Rightarrow> ref option list \<Rightarrow> (ref \<times> ref) list option \<Rightarrow> raw_game" where
  "new_Game_raw d r k =
     \<lparr>raw_index = None, raw_date = d, raw_results = r,
      raw_knockouts = (case k of None \<Rightarrow> [] | Some ks \<Rightarrow> ks),
      raw_bountyPlayers = None, raw_fishChipper = None\<rparr>"

definition setScore_raw :: "raw_game \<Rightarrow> int \<Rightarrow> raw_score \<Rightarrow> raw_score" where
  "setScore_raw g v s =
     (case raw_index g of None \<Rightarrow> s
      | Some i \<Rightarrow> s\<lparr>raw_scores := assign (raw_scores s) i v\<rparr>)"

definition setBonusPoints_raw :: "raw_game \<Rightarrow> int \<Rightarrow> raw_score \<Rightarrow> raw_score" where
  "setBonusPoints_raw g v s =
     (case raw_index g of None \<Rightarrow> s
      | Some i \<Rightarrow> s\<lparr>raw_bonusPoints := assign (raw_bonusPoints s) i v\<rparr>)"

fun bounty_scan_raw :: "ref option list \<Rightarrow> ref option list \<Rightarrow> ref list \<Rightarrow> ref list" where
  "bounty_scan_raw res [] bounty = bounty"
| "bounty_scan_raw res (slot # slots) bounty =
     (if length bounty < 3
      then bounty_scan_raw res slots
             (if indexOf_holes res (slot_value slot) \<noteq> -1 then bounty @ [slot_value slot]
              else bounty)
      else bounty)"

fun fish_scan_raw ::
  "ref option list \<Rightarrow> ref option list \<Rightarrow> nat \<Rightarrow> ref option \<Rightarrow> ref option" where
  "fish_scan_raw res prev 0 fish = fish"
| "fish_scan_raw res prev (Suc i) fish =
     (if indexOf_holes res (read prev i) \<noteq> -1 then Some (read prev i)
      else fish_scan_raw res prev i fish)"

definition setPreviousGameInfo_raw :: "raw_game \<Rightarrow> raw_game \<Rightarrow> raw_game" where
  "setPreviousGameInfo_raw g previousGame =
     g\<lparr>raw_bountyPlayers :=
         Some (bounty_scan_raw (raw_results g) (raw_results previousGame) []),
       raw_fishChipper :=
         fish_scan_raw (raw_results g) (raw_results previousGame)
           (length (raw_results previousGame)) (raw_fishChipper g)\<rparr>"

definition getPaidPlayers_raw :: "raw_game \<Rightarrow> ref option list" where
  \<comment> \<open>\<^verbatim>\<open>slice\<close> keeps the holes.\<close>
  "getPaidPlayers_raw g =
     (let playerCount = length (raw_results g);
          paid = (playerCount - (playerCount mod 3)) div 3
      in take paid (raw_results g))"

definition calculateFishChipBonus_raw :: "raw_game \<Rightarrow> ref \<Rightarrow> int" where
  "calculateFishChipBonus_raw g p =
     (if Some p = raw_fishChipper g
      then (if indexOf_holes (getPaidPlayers_raw g) p \<noteq> -1 then 0 + FISH_CHIP_BONUS else 0)
      else 0)"

fun bounty_loop_raw :: "ref list \<Rightarrow> ref \<Rightarrow> (ref \<times> ref) list \<Rightarrow> int \<Rightarrow> int" where
  "bounty_loop_raw bounty p [] bountyBonus = bountyBonus"
| "bounty_loop_raw bounty p (knockout # kos) bountyBonus =
     bounty_loop_raw bounty p kos
       (if fst knockout = p \<and> indexOf bounty (snd knockout) \<noteq> -1
        then bountyBonus + BOUNTY_BONUS else bountyBonus)"

definition calculateBountyBonus_raw :: "raw_game \<Rightarrow> ref \<Rightarrow> int" where
  "calculateBountyBonus_raw g p =
     (case raw_bountyPlayers g of
        None \<Rightarrow> 0
      | Some bounty \<Rightarrow> bounty_loop_raw bounty p (raw_knockouts g) 0)"

definition score_finisher_raw ::
  "raw_game \<Rightarrow> int list \<Rightarrow> raw_score list \<Rightarrow> nat \<Rightarrow> raw_score list" where
  "score_finisher_raw g points ss i =
     (let p = read (raw_results g) i;
          (k, ss') = Score_getOrCreate_raw p ss;
          placeScore = points ! i;
          bonus = calculateFishChipBonus_raw g p + calculateBountyBonus_raw g p;
          s0 = ss' ! k;
          s1 = (if i = 0 then win_raw s0 else s0);
          s2 = setScore_raw g (placeScore + bonus) s1;
          s3 = setBonusPoints_raw g bonus s2
      in ss'[k := s3])"

definition calculateScores_raw :: "raw_game \<Rightarrow> raw_score list \<Rightarrow> js_error + raw_score list" where
  \<comment> \<open>Before the loop, \<^verbatim>\<open>this.fishChipper.name\<close> is read for the log when the holder is not
      null: a TypeError when it is \<^verbatim>\<open>undefined\<close>. Nothing else in the method can throw.\<close>
  "calculateScores_raw g ss =
     (if raw_fishChipper g = Some Undefined then Inl TypeError
      else Inr (foldl (score_finisher_raw g (adjust_points (length (raw_results g)))) ss
                  [0..<length (raw_results g)]))"

record raw_season =
  raw_name :: string
  raw_games :: "raw_game list"
  raw_season_scores :: "raw_score list"

definition new_Season_raw :: "string \<Rightarrow> raw_season" where
  "new_Season_raw n = \<lparr>raw_name = n, raw_games = [], raw_season_scores = []\<rparr>"

definition sortScores_raw :: "raw_season \<Rightarrow> raw_season" where
  "sortScores_raw s =
     s\<lparr>raw_season_scores :=
         sort_js (\<lambda>a b. getOverallScore_raw b - getOverallScore_raw a) (raw_season_scores s)\<rparr>"

definition addGame_raw :: "raw_season \<Rightarrow> raw_game \<Rightarrow> bool option \<Rightarrow> js_error + raw_season" where
  \<comment> \<open>An exception of \<^verbatim>\<open>calculateScores\<close> leaves \<^verbatim>\<open>addGame\<close> at once.\<close>
  "addGame_raw s g0 flag =
     (let g1 = (if length (raw_games s) \<noteq> 0
                then setPreviousGameInfo_raw g0 (last (raw_games s)) else g0);
          g2 = g1\<lparr>raw_index := Some (length (raw_games s))\<rparr>;
          s1 = s\<lparr>raw_games := raw_games s @ [g2]\<rparr>
      in case calculateScores_raw g2 (raw_season_scores s1) of
           Inl e \<Rightarrow> Inl e
         | Inr ss \<Rightarrow>
             (let s2 = s1\<lparr>raw_season_scores := ss\<rparr>
              in Inr (if falsy flag then sortScores_raw s2 else s2)))"

type_synonym raw_entry =
  "date \<times> ref option list \<times> (ref \<times> ref) list option \<times> bool option"

fun add_entries_raw :: "raw_season \<Rightarrow> raw_entry list \<Rightarrow> js_error + raw_season" where
  \<comment> \<open>\<^verbatim>\<open>season.addGame(new Game(date, results, knockouts), flag)\<close>, entry after entry.\<close>
  "add_entries_raw s [] = Inr s"
| "add_entries_raw s ((d, r, k, flag) # es) =
     (case addGame_raw s (new_Game_raw d r k) flag of
        Inl e \<Rightarrow> Inl e
      | Inr s' \<Rightarrow> add_entries_raw s' es)"

definition season_of_raw :: "string \<Rightarrow> raw_entry list \<Rightarrow> js_error + raw_season" where
  "season_of_raw n es = add_entries_raw (new_Season_raw n) es"

section \<open>Persistence\<close>

text \<open>
  \<^verbatim>\<open>toObject\<close> gives the ids of the finishers and the id pairs of the knockouts; its
  \<^verbatim>\<open>map\<close> leaves a hole a hole, and reading \<^verbatim>\<open>.id\<close> of \<^verbatim>\<open>undefined\<close> is a TypeError. The date
  string is kept as the three numbers it joins with \<^verbatim>\<open>'-'\<close>.
\<close>

record game_obj =
  obj_date :: "int \<times> int \<times> int"
  obj_results :: "nat option list"
  obj_knockouts :: "(nat \<times> nat) list"

record season_obj =
  obj_name :: string
  obj_games :: "game_obj list"

fun result_ids :: "ref option list \<Rightarrow> js_error + nat option list" where
  \<comment> \<open>\<^verbatim>\<open>this.results.map(function(p) { return p.id })\<close>\<close>
  "result_ids [] = Inr []"
| "result_ids (None # a) =
     (case result_ids a of Inl e \<Rightarrow> Inl e | Inr ids \<Rightarrow> Inr (None # ids))"
| "result_ids (Some Undefined # a) = Inl TypeError"
| "result_ids (Some (Ref p) # a) =
     (case result_ids a of Inl e \<Rightarrow> Inl e | Inr ids \<Rightarrow> Inr (Some (player_id p) # ids))"

fun knockout_ids :: "(ref \<times> ref) list \<Rightarrow> js_error + (nat \<times> nat) list" where
  \<comment> \<open>\<^verbatim>\<open>this.knockouts.map(function(ko) { return [ko[0].id, ko[1].id] })\<close>\<close>
  "knockout_ids [] = Inr []"
| "knockout_ids ((Ref a, Ref b) # kos) =
     (case knockout_ids kos of
        Inl e \<Rightarrow> Inl e
      | Inr ids \<Rightarrow> Inr ((player_id a, player_id b) # ids))"
| "knockout_ids (ko # kos) = Inl TypeError"

definition Game_toObject :: "raw_game \<Rightarrow> js_error + game_obj" where
  "Game_toObject g =
     (case result_ids (raw_results g) of
        Inl e \<Rightarrow> Inl e
      | Inr r \<Rightarrow>
         (case knockout_ids (raw_knockouts g) of
            Inl e \<Rightarrow> Inl e
          | Inr k \<Rightarrow>
             Inr \<lparr>obj_date = (case raw_date g of (y, m, d) \<Rightarrow> (y, m + 1, d)),
                  obj_results = r, obj_knockouts = k\<rparr>))"

fun game_objs :: "raw_game list \<Rightarrow> js_error + game_obj list" where
  \<comment> \<open>\<^verbatim>\<open>this.games.map(function(g) { return g.toObject() })\<close>\<close>
  "game_objs [] = Inr []"
| "game_objs (g # gs) =
     (case Game_toObject g of
        Inl e \<Rightarrow> Inl e
      | Inr obj \<Rightarrow> (case game_objs gs of Inl e \<Rightarrow> Inl e | Inr objs \<Rightarrow> Inr (obj # objs)))"

definition Season_toObject :: "raw_season \<Rightarrow> js_error + season_obj" where
  "Season_toObject s =
     (case game_objs (raw_games s) of
        Inl e \<Rightarrow> Inl e
      | Inr objs \<Rightarrow> Inr \<lparr>obj_name = raw_name s, obj_games = objs\<rparr>)"

text \<open>
  \<^verbatim>\<open>saveSeasons\<close> writes the objects with \<^verbatim>\<open>JSON.stringify\<close> and the program reads them
  back with \<^verbatim>\<open>JSON.parse\<close>: a hole of an array comes back as the element \<^verbatim>\<open>null\<close>.
\<close>

datatype json_id = Null | Num nat

record stored_game =
  stored_date :: "int \<times> int \<times> int"
  stored_results :: "json_id list"
  stored_knockouts :: "(nat \<times> nat) list"

record stored_season =
  stored_name :: string
  stored_games :: "stored_game list"

definition json_id :: "nat option \<Rightarrow> json_id" where
  "json_id slot = (case slot of None \<Rightarrow> Null | Some i \<Rightarrow> Num i)"

definition json_game :: "game_obj \<Rightarrow> stored_game" where
  "json_game obj =
     \<lparr>stored_date = obj_date obj, stored_results = map json_id (obj_results obj),
      stored_knockouts = obj_knockouts obj\<rparr>"

definition json_season :: "season_obj \<Rightarrow> stored_season" where
  "json_season obj = \<lparr>stored_name = obj_name obj, stored_games = map json_game (obj_games obj)\<rparr>"

definition lookup_player :: "player list \<Rightarrow> json_id \<Rightarrow> ref" where
  \<comment> \<open>\<^verbatim>\<open>players[id]\<close>: \<^verbatim>\<open>undefined\<close> for \<^verbatim>\<open>null\<close> and past the end of the directory.\<close>
  "lookup_player players i =
     (case i of Null \<Rightarrow> Undefined
      | Num n \<Rightarrow> (if n < length players then Ref (players ! n) else Undefined))"

definition Game_fromObject ::
  "(int \<times> int \<times> int \<Rightarrow> date) \<Rightarrow> player list \<Rightarrow> stored_game \<Rightarrow> raw_game" where
  \<comment> \<open>The first argument is what \<^verbatim>\<open>split('-').map(Number)\<close> and
      \<^verbatim>\<open>new Date(parts[0], parts[1] - 1, parts[2])\<close> make of the stored date: the engine's
      string and Date operations, which normalise. No scoring reads the date.\<close>
  "Game_fromObject read_date players obj =
     new_Game_raw (read_date (stored_date obj))
       (map (\<lambda>i. Some (lookup_player players i)) (stored_results obj))
       (Some (map (\<lambda>ko. (lookup_player players (Num (fst ko)),
                          lookup_player players (Num (snd ko))))
                (stored_knockouts obj)))"

fun replay ::
  "(int \<times> int \<times> int \<Rightarrow> date) \<Rightarrow> player list \<Rightarrow> raw_season \<Rightarrow> stored_game list
     \<Rightarrow> js_error + raw_season" where
  \<comment> \<open>The \<^verbatim>\<open>forEach\<close> of \<^verbatim>\<open>Season.fromObject\<close>: \<^verbatim>\<open>season.addGame(Game.fromObject(...), false)\<close>.\<close>
  "replay read_date players s [] = Inr s"
| "replay read_date players s (obj # objs) =
     (case addGame_raw s (Game_fromObject read_date players obj) (Some False) of
        Inl e \<Rightarrow> Inl e
      | Inr s' \<Rightarrow> replay read_date players s' objs)"

definition Season_fromObject ::
  "(int \<times> int \<times> int \<Rightarrow> date) \<Rightarrow> player list \<Rightarrow> stored_season \<Rightarrow> js_error + raw_season" where
  \<comment> \<open>The statement \<^verbatim>\<open>season.sortScores\<close> after the loop names the method without calling
      it.\<close>
  "Season_fromObject read_date players obj =
     replay read_date players (new_Season_raw (stored_name obj)) (stored_games obj)"

definition reload ::
  "(int \<times> int \<times> int \<Rightarrow> date) \<Rightarrow> player list \<Rightarrow> raw_season \<Rightarrow> js_error + raw_season" where
  \<comment> \<open>Save a season and load it again.\<close>
  "reload read_date players s =
     (case Season_toObject s of
        Inl e \<Rightarrow> Inl e
      | Inr obj \<Rightarrow> Season_fromObject read_date players (json_season obj))"

definition dense_entry :: "player list \<Rightarrow> raw_entry \<Rightarrow> bool" where
  \<comment> \<open>Every position of the results is filled with a Player of the directory, the
      knockout parties are Players of the directory, and the flag is one the program
      passes.\<close>
  "dense_entry players e =
     (case e of (d, r, k, flag) \<Rightarrow>
        falsy flag \<and>
        list_all (\<lambda>slot. case slot of Some (Ref p) \<Rightarrow> p \<in> set players | _ \<Rightarrow> False) r \<and>
        list_all (\<lambda>ko. case ko of (Ref a, Ref b) \<Rightarrow> a \<in> set players \<and> b \<in> set players
                         | _ \<Rightarrow> False)
          (case k of None \<Rightarrow> [] | Some ks \<Rightarrow> ks))"

section \<open>Notions used in the statements and proofs\<close>

definition bounty_set :: "game \<Rightarrow> player set" where
  \<comment> \<open>The players with a bounty on their head; none while \<open>bountyPlayers\<close> is null.\<close>
  "bounty_set g = (case bountyPlayers g of None \<Rightarrow> {} | Some b \<Rightarrow> set b)"

fun upd_first :: "player \<Rightarrow> (score \<Rightarrow> score) \<Rightarrow> score list \<Rightarrow> score list" where
  \<comment> \<open>Change the first Score of a player, the one \<^verbatim>\<open>Score.getOrCreate\<close> finds.\<close>
  "upd_first p f [] = []"
| "upd_first p f (s # ss) = (if p = player s then f s # ss else s # upd_first p f ss)"

definition ensure :: "player \<Rightarrow> score list \<Rightarrow> score list" where
  "ensure p ss = (if p \<in> player ` set ss then ss else ss @ [new_Score p])"

definition entered :: "season \<Rightarrow> game \<Rightarrow> game" where
  \<comment> \<open>The game as \<^verbatim>\<open>addGame\<close> stores and scores it.\<close>
  "entered s g0 =
     (if length (games s) \<noteq> 0 then setPreviousGameInfo g0 (last (games s)) else g0)
       \<lparr>game_index := Some (length (games s))\<rparr>"

definition award :: "game \<Rightarrow> int list \<Rightarrow> nat \<Rightarrow> score \<Rightarrow> score" where
  \<comment> \<open>What one round of the scoring loop does to the Score it obtained.\<close>
  "award g points i s =
     (let p = results g ! i;
          bonus = calculateFishChipBonus g p + calculateBountyBonus g p
      in setBonusPoints g bonus
           (setScore g (points ! i + bonus) (if i = 0 then win s else s)))"

definition bump :: "nat \<Rightarrow> score \<Rightarrow> score" where
  \<comment> \<open>The part of a round that counts: the win of the finisher at index 0.\<close>
  "bump i s = (if i = 0 then win s else s)"

definition wloop :: "game \<Rightarrow> int list \<Rightarrow> score list \<Rightarrow> nat list \<Rightarrow> score list" where
  \<comment> \<open>The rounds of the scoring loop on a collection that has every finisher's Score.\<close>
  "wloop g pts ss is = foldl (\<lambda>ss i. upd_first (results g ! i) (award g pts i) ss) ss is"

definition eloop :: "game \<Rightarrow> score list \<Rightarrow> nat list \<Rightarrow> score list" where
  \<comment> \<open>The Scores the scoring loop creates, in the order it creates them.\<close>
  "eloop g ss is = foldl (\<lambda>ss i. ensure (results g ! i) ss) ss is"

definition lift_score :: "score \<Rightarrow> raw_score" where
  \<comment> \<open>A Score of a Player, among the Scores whose player may be \<^verbatim>\<open>undefined\<close>.\<close>
  "lift_score s =
     \<lparr>raw_player = Ref (player s), raw_scores = scores s, raw_bonusPoints = bonusPoints s,
      raw_wins = wins s\<rparr>"

definition lift_game :: "game \<Rightarrow> raw_game" where
  \<comment> \<open>A game of dense results, among the games whose results may have holes.\<close>
  "lift_game g =
     \<lparr>raw_index = game_index g, raw_date = date g,
      raw_results = map (\<lambda>p. Some (Ref p)) (results g),
      raw_knockouts = map (\<lambda>ko. (Ref (fst ko), Ref (snd ko))) (knockouts g),
      raw_bountyPlayers = map_option (map Ref) (bountyPlayers g),
      raw_fishChipper = map_option Ref (fishChipper g)\<rparr>"

definition lift_season :: "season \<Rightarrow> raw_season" where
  "lift_season s =
     \<lparr>raw_name = season_name s, raw_games = map lift_game (games s),
      raw_season_scores = map lift_score (season_scores s)\<rparr>"

definition lift_entry :: "entry \<Rightarrow> raw_entry" where
  "lift_entry e =
     (case e of (d, r, k, flag) \<Rightarrow>
        (d, map (\<lambda>p. Some (Ref p)) r,
         map_option (map (\<lambda>ko. (Ref (fst ko), Ref (snd ko)))) k, flag))"

definition entry_ok :: "player list \<Rightarrow> entry \<Rightarrow> bool" where
  \<comment> \<open>The finishers and the knockout parties are taken from the directory, and the flag
      is one the program passes.\<close>
  "entry_ok players e =
     (case e of (d, r, k, flag) \<Rightarrow>
        falsy flag \<and> list_all (\<lambda>p. p \<in> set players) r \<and>
        list_all (\<lambda>ko. fst ko \<in> set players \<and> snd ko \<in> set players)
          (case k of None \<Rightarrow> [] | Some ks \<Rightarrow> ks))"

definition undated :: "game \<Rightarrow> game" where
  \<comment> \<open>A game with its date blotted out: what the scoring reads of it.\<close>
  "undated g = g\<lparr>date := (0, 0, 0)\<rparr>"

definition saved_entry :: "(int \<times> int \<times> int \<Rightarrow> date) \<Rightarrow> game \<Rightarrow> entry" where
  \<comment> \<open>The constructor call and flag that loading makes for a saved game.\<close>
  "saved_entry read_date g =
     (read_date (case date g of (y, m, d) \<Rightarrow> (y, m + 1, d)), results g,
      Some (knockouts g), Some False)"

definition reloaded_entry :: "(int \<times> int \<times> int \<Rightarrow> date) \<Rightarrow> entry \<Rightarrow> entry" where
  \<comment> \<open>The constructor call that loading makes for the game of an entry.\<close>
  "reloaded_entry read_date e =
     (case e of (d, r, k, flag) \<Rightarrow>
        (read_date (case d of (y, m, dd) \<Rightarrow> (y, m + 1, dd)), r,
         Some (case k of None \<Rightarrow> [] | Some ks \<Rightarrow> ks), Some False))"

subsection \<open>Sample data\<close>

definition pA :: player where "pA = \<lparr>player_id = 0, player_name = ''A''\<rparr>"
definition pB :: player where "pB = \<lparr>player_id = 1, player_name = ''B''\<rparr>"
definition pC :: player where "pC = \<lparr>player_id = 2, player_name = ''C''\<rparr>"
definition pD :: player where "pD = \<lparr>player_id = 3, player_name = ''D''\<rparr>"
definition pE :: player where "pE = \<lparr>player_id = 4, player_name = ''E''\<rparr>"
definition pF :: player where "pF = \<lparr>player_id = 5, player_name = ''F''\<rparr>"

definition six :: "player list" where
  "six = [pA, pB, pC, pD, pE, pF]"

definition week1 :: entry where
  "week1 = ((2012, 4, 7), [pA, pB, pC, pD, pE, pF], Some [], None)"

definition week2 :: entry where
  "week2 = ((2012, 4, 14), [pC, pF, pA, pB, pD, pE],
            Some [(pC, pA), (pC, pB), (pF, pD)], None)"

definition game1 :: game where
  \<comment> \<open>The game of \<open>week1\<close> as it stands in a season it opens.\<close>
  "game1 = \<lparr>game_index = Some 0, date = (2012, 4, 7),
     results = [pA, pB, pC, pD, pE, pF], knockouts = [],
     bountyPlayers = None, fishChipper = None\<rparr>"

definition game2 :: game where
  \<comment> \<open>The game of \<open>week2\<close> as it stands in a season after that of \<open>week1\<close>.\<close>
  "game2 = \<lparr>game_index = Some 1, date = (2012, 4, 14),
     results = [pC, pF, pA, pB, pD, pE],
     knockouts = [(pC, pA), (pC, pB), (pF, pD)],
     bountyPlayers = Some [pA, pB, pC], fishChipper = Some pF\<rparr>"

definition gap1 :: raw_entry where
  \<comment> \<open>Five finishers entered at positions 1, 3, 4 and 5: position 2 is a hole.\<close>
  "gap1 = ((2012, 4, 7),
           [Some (Ref pA), None, Some (Ref pB), Some (Ref pC), Some (Ref pD)], Some [], None)"

definition gap2 :: raw_entry where
  "gap2 = ((2012, 4, 14),
           [Some (Ref pA), None, Some (Ref pB), Some (Ref pC), Some (Ref pD)],
           Some [(Ref pA, Ref pC)], None)"

definition read_back :: "int \<times> int \<times> int \<Rightarrow> date" where
  \<comment> \<open>The stored numbers of a date of 2012 read back: the month counts from 0.\<close>
  "read_back d = (case d of (y, m, dd) \<Rightarrow> (y, m - 1, dd))"

definition gaps_reloaded :: "js_error + raw_season" where
  \<comment> \<open>The season of \<open>gap1\<close> and \<open>gap2\<close>, saved and loaded with the directory \<open>six\<close>.\<close>
  "gaps_reloaded =
     (case season_of_raw ''Spring'' [gap1, gap2] of
        Inl e \<Rightarrow> Inl e
      | Inr s \<Rightarrow> reload read_back six s)"

definition twelve :: score where
  "twelve = \<lparr>player = pA,
     scores = [Some 15, Some 1, None, Some 13, Some 2, Some 11, Some 3, Some 9, Some 4,
               Some 7, Some 5, Some 5, Some 16],
     bonusPoints = [Some 0, Some 0, None, Some 0, Some 0, Some 0, Some 0, Some 0, Some 0,
               Some 0, Some 0, Some 0, Some 1],
     wins = 2\<rparr>"

definition five :: score where
  "five = \<lparr>player = pB, scores = [None, Some 13, Some 5, None, Some 16, Some 1, Some 9],
     bonusPoints = [None, Some 0, Some 0, None, Some 1, Some 0, Some 0], wins = 1\<rparr>"

section \<open>Facts about the array operations\<close>

lemma indexOf_ge: "indexOf xs x \<ge> -1"
  by (induction xs) (auto simp: Let_def)

lemma indexOf_mem: "indexOf xs x \<noteq> -1 \<longleftrightarrow> x \<in> set xs"
proof (induction xs)
  case Nil then show ?case by simp
next
  case (Cons y ys)
  have "indexOf ys x \<ge> -1" by (rule indexOf_ge)
  then have "indexOf ys x + 1 \<noteq> -1" by arith
  with Cons show ?case by (auto simp: Let_def)
qed

lemma sum_js_acc: "foldl (\<lambda>a b. a + b) a xs = a + sum_list (xs :: int list)"
  by (induction xs arbitrary: a) auto

lemma sum_js_eq: "sum_js xs = sum_list xs"
  by (simp add: sum_js_def sum_js_acc)

lemma mset_sort_insert: "mset (sort_insert c x ys) = add_mset x (mset ys)"
  by (induction ys) auto

lemma sort_js_snoc: "sort_js c (xs @ [x]) = sort_insert c x (sort_js c xs)"
  by (simp add: sort_js_def)

lemma sort_js_Nil: "sort_js c [] = []"
  by (simp add: sort_js_def)

lemma mset_sort_js: "mset (sort_js c xs) = mset xs"
  by (induction xs rule: rev_induct) (simp_all add: sort_js_Nil sort_js_snoc mset_sort_insert)

lemma set_sort_insert: "set (sort_insert c x ys) = insert x (set ys)"
  by (induction ys) auto

lemma sorted_sort_insert:
  "sorted_wrt (\<lambda>a b. key b \<le> key a) ys \<Longrightarrow>
   sorted_wrt (\<lambda>a b. key b \<le> key a) (sort_insert (\<lambda>a b. key b - key a) x ys)"
  by (induction ys) (auto simp: set_sort_insert)

lemma sorted_sort_js:
  "sorted_wrt (\<lambda>a b. key b \<le> (key a :: int)) (sort_js (\<lambda>a b. key b - key a) xs)"
  by (induction xs rule: rev_induct) (simp_all add: sort_js_Nil sort_js_snoc sorted_sort_insert)

lemma filter_sort_insert:
  "sorted_wrt (\<lambda>a b. key b \<le> key a) ys \<Longrightarrow>
   filter (\<lambda>y. key y = k) (sort_insert (\<lambda>a b. key b - key a) x ys) =
   filter (\<lambda>y. key y = k) ys @ (if key x = k then [x] else [])"
proof (induction ys)
  case Nil then show ?case by simp
next
  case (Cons y ys)
  show ?case
  proof (cases "key y < key x")
    case True
    then have "\<forall>z \<in> set (y # ys). key z \<noteq> key x" using Cons.prems by auto
    then have "key x = k \<Longrightarrow> filter (\<lambda>y. key y = k) (y # ys) = []"
      by (auto simp: filter_empty_conv)
    then show ?thesis using True by auto
  next
    case False
    then show ?thesis using Cons by auto
  qed
qed

lemma stable_sort_js:
  "filter (\<lambda>y. key y = k) (sort_js (\<lambda>a b. key b - key a) xs) = filter (\<lambda>y. (key y :: int) = k) xs"
  by (induction xs rule: rev_induct)
     (simp_all add: sort_js_Nil sort_js_snoc filter_sort_insert sorted_sort_js)

lemma sort_js_desc: "sort_js (\<lambda>a b. b - a) (xs :: int list) = rev (sort xs)"
proof -
  have s: "sorted_wrt (\<lambda>a b. b \<le> a) (sort_js (\<lambda>a b. b - a) xs)"
    using sorted_sort_js [of "\<lambda>x. x" xs] by simp
  have "sorted (rev (sort_js (\<lambda>a b. b - a) xs))"
    using s by (simp add: sorted_wrt_rev)
  moreover have "mset (rev (sort_js (\<lambda>a b. b - a) xs)) = mset xs"
    by (simp add: mset_sort_js)
  ultimately have "sort xs = rev (sort_js (\<lambda>a b. b - a) xs)"
    by (rule properties_for_sort [OF _ _, rotated]) 
  then show ?thesis by simp
qed

lemma top_sum:
  "sorted_wrt (\<lambda>a b. b \<le> a) xs \<Longrightarrow> B \<subseteq># mset xs \<Longrightarrow> size B = k \<Longrightarrow>
   sum_mset B \<le> sum_list (take k (xs :: int list))"
proof (induction xs arbitrary: B k)
  case Nil then show ?case by simp
next
  case (Cons x xs)
  show ?case
  proof (cases k)
    case 0 then show ?thesis using Cons.prems by simp
  next
    case (Suc k')
    then obtain b where b: "b \<in># B" using Cons.prems(3)
      by (metis size_eq_Suc_imp_elem)
    define c where "c = (if x \<in># B then x else b)"
    have cB: "c \<in># B" using b by (simp add: c_def)
    have "c \<in> set (x # xs)" using cB Cons.prems(2) by (metis mset_subset_eqD set_mset_mset)
    then have cx: "c \<le> x" using Cons.prems(1) by auto
    have sub: "B - {#c#} \<subseteq># mset xs"
    proof (cases "x \<in># B")
      case True
      then have "c = x" by (simp add: c_def)
      then show ?thesis using Cons.prems(2)
        by (simp add: subset_eq_diff_conv)
    next
      case False
      have "count B a \<le> count (mset xs) a" for a
        using mset_subset_eq_count [OF Cons.prems(2), of a] False
        by (cases "a = x") (simp_all add: not_in_iff)
      then have "B \<subseteq># mset xs" by (rule mset_subset_eqI)
      then show ?thesis by (meson diff_subset_eq_self subset_mset.order_trans)
    qed
    have "size (B - {#c#}) = k'" using cB Cons.prems(3) Suc by (simp add: size_Diff_singleton)
    from Cons.IH [OF _ sub this] Cons.prems(1)
    have "sum_mset (B - {#c#}) \<le> sum_list (take k' xs)" by simp
    moreover have "sum_mset B = c + sum_mset (B - {#c#})"
      using cB by (metis insert_DiffM sum_mset.add_mset)
    ultimately show ?thesis using cx Suc by simp
  qed
qed

section \<open>Placement points\<close>

lemma push_extra_eq: "push_extra ps e = ps @ map int (rev [1..<Suc e])"
  by (induction e arbitrary: ps) auto

lemma length_DEFAULT_POINTS: "length DEFAULT_POINTS = 10"
  by (simp add: DEFAULT_POINTS_def)

lemma adjust_points_small: "n \<le> 10 \<Longrightarrow> adjust_points n = DEFAULT_POINTS"
  by (simp add: adjust_points_def length_DEFAULT_POINTS)

lemma adjust_points_large:
  "10 < n \<Longrightarrow> adjust_points n =
     map (\<lambda>v. v + int (n - 10)) DEFAULT_POINTS @ map int (rev [1..<Suc (n - 10)])"
  by (simp add: adjust_points_def length_DEFAULT_POINTS push_extra_eq)

lemma length_adjust_points: "n \<le> length (adjust_points n)"
  by (cases "n \<le> 10") (simp_all add: adjust_points_small adjust_points_large length_DEFAULT_POINTS)

lemma placement_small: "n \<le> 10 \<Longrightarrow> placement n = take n DEFAULT_POINTS"
  unfolding placement_def
  by (auto simp: adjust_points_small length_DEFAULT_POINTS intro!: nth_equalityI)

lemma placement_large: 
  assumes "10 < n"
  shows "placement n = map (\<lambda>v. v + int (n - 10)) DEFAULT_POINTS @ map int (rev [1..<Suc (n - 10)])"
proof -
  have "length (adjust_points n) = n" 
    using assms by (simp add: adjust_points_large length_DEFAULT_POINTS)
  then have "placement n = adjust_points n"
    unfolding placement_def by (metis map_nth)
  then show ?thesis using assms by (simp add: adjust_points_large)
qed


text \<open>
  C1. The placement points read by the scoring loop of a game with \<open>n\<close> finishers are
  the first \<open>n\<close> entries of the base table [15,13,11,9,7,5,4,3,2,1] when \<open>n \<le> 10\<close>;
  beyond ten finishers each base value grows by \<open>n - 10\<close> and the values
  \<open>n - 10, \<dots>, 1\<close> follow, so that first place has \<open>15 + (n - 10)\<close> points and last
  place has exactly 1.
\<close>

theorem placement_points:
  "placement n =
     (if n \<le> 10 then take n [15, 13, 11, 9, 7, 5, 4, 3, 2, 1]
      else map (\<lambda>v. v + (int n - 10)) [15, 13, 11, 9, 7, 5, 4, 3, 2, 1]
           @ map int (rev [1..<Suc (n - 10)]))
   \<and> length (placement n) = n
   \<and> (10 < n \<longrightarrow> placement n ! 0 = 15 + (int n - 10) \<and> placement n ! (n - 1) = 1)"
proof -
  have len: "length (placement n) = n" by (simp add: placement_def)
  show ?thesis
  proof (cases "n \<le> 10")
    case True
    then show ?thesis using len by (simp add: placement_small DEFAULT_POINTS_def)
  next
    case False
    then have n: "10 < n" by simp
    have eq: "placement n = map (\<lambda>v. v + (int n - 10)) [15, 13, 11, 9, 7, 5, 4, 3, 2, 1]
           @ map int (rev [1..<Suc (n - 10)])"
      using n by (simp add: placement_large DEFAULT_POINTS_def of_nat_diff)
    have "placement n ! (n - 1) = last (placement n)"
      using len n by (metis last_conv_nth length_0_conv not_less_zero)
    also have "\<dots> = 1" unfolding eq using n by (auto simp: upt_conv_Cons)
    finally have l: "placement n ! (n - 1) = 1" .
    have p0: "placement n ! 0 = 15 + (int n - 10)" unfolding eq by simp
    have "placement n =
     (if n \<le> 10 then take n [15, 13, 11, 9, 7, 5, 4, 3, 2, 1]
      else map (\<lambda>v. v + (int n - 10)) [15, 13, 11, 9, 7, 5, 4, 3, 2, 1]
           @ map int (rev [1..<Suc (n - 10)]))"
      using eq False by (simp only: if_False)
    then show ?thesis using len l p0 by blast
  qed
qed



theorem placement_points_witness:
  "(10::nat) < 13 \<and> placement 13 ! 0 = 18 \<and> placement 13 ! (13 - 1) = 1
   \<and> placement 13 = [18, 16, 14, 12, 10, 8, 7, 6, 5, 4, 3, 2, 1]"
  using placement_points [of 13] by (simp add: upt_conv_Cons)

section \<open>Overall score\<close>

text \<open>
  C2. The overall score of a Score record is the sum of its nine largest recorded game
  totals: the sum of the first nine of the recorded totals in descending order, which no
  choice of (at most) nine recorded totals exceeds. With nine recorded games or fewer it
  is the sum of them all, and 0 with none.
\<close>

theorem overall_score_best_nine:
  "getOverallScore s = sum_list (take 9 (rev (sort (getGameScores s))))
   \<and> (\<exists>A. A \<subseteq># mset (getGameScores s) \<and> size A = min 9 (getGamesPlayed s)
          \<and> getOverallScore s = sum_mset A)
   \<and> (\<forall>B. B \<subseteq># mset (getGameScores s) \<and> size B = min 9 (getGamesPlayed s)
          \<longrightarrow> sum_mset B \<le> getOverallScore s)
   \<and> (getGamesPlayed s \<le> 9 \<longrightarrow> getOverallScore s = sum_list (getGameScores s))
   \<and> (getGamesPlayed s = 0 \<longrightarrow> getOverallScore s = 0)"
proof -
  define gs where "gs = getGameScores s"
  define top where "top = take 9 (rev (sort gs))"
  have o: "getOverallScore s = sum_list top"
    by (simp add: getOverallScore_def sum_js_eq sort_js_desc top_def gs_def)
  have desc: "sorted_wrt (\<lambda>a b. b \<le> a) (rev (sort gs))"
    by (simp add: sorted_wrt_rev)
  have "mset top \<subseteq># mset (rev (sort gs))"
    unfolding top_def by (metis append_take_drop_id mset_append mset_subset_eq_add_left)
  then have sub: "mset top \<subseteq># mset gs" by simp
  have sz: "size (mset top) = min 9 (length gs)" by (simp add: top_def min.commute)
  have ex: "\<exists>A. A \<subseteq># mset gs \<and> size A = min 9 (length gs) \<and> getOverallScore s = sum_mset A"
    using sub sz o by (metis sum_mset_sum_list)
  have mx: "sum_mset B \<le> getOverallScore s" if "B \<subseteq># mset gs" "size B = min 9 (length gs)" for B
  proof -
    have "B \<subseteq># mset (rev (sort gs))" using that(1) by simp
    from top_sum [OF desc this that(2)]
    have "sum_mset B \<le> sum_list (take (min 9 (length gs)) (rev (sort gs)))" .
    also have "take (min 9 (length gs)) (rev (sort gs)) = top"
      by (simp add: top_def min_def)
    finally show ?thesis using o by simp
  qed
  have few: "getOverallScore s = sum_list gs" if "length gs \<le> 9"
  proof -
    have "top = rev (sort gs)" using that by (simp add: top_def)
    then have "sum_list top = sum_mset (mset (rev (sort gs)))" by (metis sum_mset_sum_list)
    also have "\<dots> = sum_list gs" by (simp add: sum_mset_sum_list)
    finally show ?thesis using o by simp
  qed
  have none: "getOverallScore s = 0" if "length gs = 0"
    using few that by simp
  show ?thesis
    using o ex mx few none unfolding top_def gs_def getGamesPlayed_def by blast
qed


theorem overall_score_best_nine_witness:
  "getGamesPlayed twelve = 12 \<and> getOverallScore twelve = 15 + 13 + 11 + 9 + 7 + 5 + 5 + 4 + 16
   \<and> getGamesPlayed five \<le> 9 \<and> getOverallScore five = 13 + 5 + 16 + 1 + 9"
  using overall_score_best_nine [of twelve] overall_score_best_nine [of five]
  by (simp add: getGamesPlayed_def getGameScores_def twelve_def five_def)

section \<open>Bonus points\<close>

lemma paid_count: "(n - n mod 3) div 3 = (n::nat) div 3"
  by presburger

lemma getPaidPlayers_eq: "getPaidPlayers g = take (length (results g) div 3) (results g)"
  by (simp add: getPaidPlayers_def Let_def paid_count)

lemma in_set_take_iff: "p \<in> set (take k xs) \<longleftrightarrow> (\<exists>i<k. i < length xs \<and> xs ! i = p)"
  by (auto simp: in_set_conv_nth)


text \<open>
  C3. The fish-chip bonus of a player is 1 exactly when the player holds this game's
  fish-chip and finishes among the first \<open>N div 3\<close> of the \<open>N\<close> finishers, and 0
  otherwise; it never exceeds 1, and no two players receive it in one game.
\<close>

theorem fish_chip_bonus:
  "calculateFishChipBonus g p =
     (if fishChipper g = Some p \<and> (\<exists>i < length (results g) div 3. results g ! i = p)
      then 1 else 0)
   \<and> calculateFishChipBonus g p \<le> 1
   \<and> (calculateFishChipBonus g p = 1 \<and> calculateFishChipBonus g q = 1 \<longrightarrow> p = q)"
proof -
  have le: "length (results g) div 3 \<le> length (results g)" by simp
  have mem: "p \<in> set (getPaidPlayers g) \<longleftrightarrow> (\<exists>i < length (results g) div 3. results g ! i = p)" for p
    unfolding getPaidPlayers_eq in_set_take_iff using le by (metis order_less_le_trans)
  have eq: "calculateFishChipBonus g p =
     (if fishChipper g = Some p \<and> (\<exists>i < length (results g) div 3. results g ! i = p)
      then 1 else 0)" for p
    using mem [of p] by (auto simp: calculateFishChipBonus_def indexOf_mem FISH_CHIP_BONUS_def)
  have "p = q" if "calculateFishChipBonus g p = 1" "calculateFishChipBonus g q = 1"
  proof -
    have "fishChipper g = Some p" using that(1) eq [of p] by (simp split: if_splits)
    moreover have "fishChipper g = Some q" using that(2) eq [of q] by (simp split: if_splits)
    ultimately show ?thesis by simp
  qed
  then show ?thesis using eq [of p] by auto
qed


theorem fish_chip_bonus_witness:
  "calculateFishChipBonus game2 pF = 1 \<and> calculateFishChipBonus game2 pC = 0"
proof -
  have "results game2 ! 1 = pF" "(1::nat) < length (results game2) div 3"
    by (simp_all add: game2_def)
  then have "\<exists>i < length (results game2) div 3. results game2 ! i = pF" by blast
  moreover have "fishChipper game2 = Some pF" "fishChipper game2 \<noteq> Some pC"
    by (simp_all add: game2_def pF_def pC_def)
  ultimately show ?thesis
    using fish_chip_bonus [of game2 pF pF] fish_chip_bonus [of game2 pC pC] by simp
qed

lemma bounty_loop_eq:
  "bounty_loop b p kos acc =
     acc + int (length (filter (\<lambda>ko. fst ko = p \<and> snd ko \<in> set b) kos))"
  by (induction kos arbitrary: acc) (auto simp: indexOf_mem BOUNTY_BONUS_def)



text \<open>
  C4. The bounty bonus of a player is the number of this game's knockout records whose
  perpetrator is the player and whose victim has a bounty, with no cap.
\<close>

theorem bounty_bonus:
  "calculateBountyBonus g p =
     int (length (filter (\<lambda>(perpetrator, victim). perpetrator = p \<and> victim \<in> bounty_set g)
       (knockouts g)))"
  by (cases "bountyPlayers g")
     (simp_all add: calculateBountyBonus_def bounty_set_def bounty_loop_eq case_prod_unfold)


theorem bounty_bonus_witness:
  "calculateBountyBonus game2 pC = 2 \<and> calculateBountyBonus game2 pF = 0"
  using bounty_bonus [of game2 pC] bounty_bonus [of game2 pF]
  by (simp add: game2_def bounty_set_def pA_def pB_def pC_def pD_def pF_def)

section \<open>The previous game\<close>











section \<open>Constructing a game\<close>

text \<open>
  C8, as the code has it. The constructor checks nothing: every results list, empty or
  with a player twice, gives a Game holding the list as passed, with the knockouts given
  (or none), no index, no bounty players and no fish-chip holder.
\<close>

theorem construct_Game_total:
  "\<exists>g. construct_Game d r k = Inr g \<and> date g = d \<and> results g = r
       \<and> knockouts g = (case k of None \<Rightarrow> [] | Some ks \<Rightarrow> ks)
       \<and> game_index g = None \<and> bountyPlayers g = None \<and> fishChipper g = None"
  by (simp add: construct_Game_def new_Game_def)

text \<open>
  C8 as stated fails: neither an empty results list nor one naming a player twice is
  rejected with an InvalidGameError.
\<close>

theorem construct_Game_no_rejection:
  "construct_Game (2012, 4, 7) [] None \<noteq> Inl InvalidGameError
   \<and> construct_Game (2012, 4, 7) [pA, pB, pA] None \<noteq> Inl InvalidGameError"
  by (simp add: construct_Game_def)

section \<open>The Score collection\<close>

lemma score_index_None: "score_index p ss = None \<longleftrightarrow> p \<notin> player ` set ss"
  by (induction ss) auto

lemma score_index_Some:
  "score_index p ss = Some k \<Longrightarrow>
     k < length ss \<and> player (ss ! k) = p \<and> (\<forall>j<k. player (ss ! j) \<noteq> p)"
proof (induction ss arbitrary: k)
  case Nil then show ?case by simp
next
  case (Cons s ss)
  show ?case
  proof (cases "p = player s")
    case True then show ?thesis using Cons.prems by simp
  next
    case False
    then obtain k' where k': "score_index p ss = Some k'" "k = Suc k'"
      using Cons.prems by auto
    from Cons.IH [OF k'(1)] False k'(2) show ?thesis
      by (auto simp: nth_Cons split: nat.splits)
  qed
qed

lemma score_index_first:
  "k < length ss \<Longrightarrow> player (ss ! k) = p \<Longrightarrow> \<forall>j<k. player (ss ! j) \<noteq> p \<Longrightarrow>
   score_index p ss = Some k"
proof (induction ss arbitrary: k)
  case Nil then show ?case by simp
next
  case (Cons s ss)
  show ?case
  proof (cases k)
    case 0 then show ?thesis using Cons.prems by simp
  next
    case (Suc k')
    have "player s \<noteq> p" using Cons.prems(3) Suc by (metis nth_Cons_0 zero_less_Suc)
    moreover have "score_index p ss = Some k'"
      using Cons.prems Suc by (intro Cons.IH) auto
    ultimately show ?thesis using Suc by auto
  qed
qed

lemma upd_first_index:
  "score_index p ss = Some k \<Longrightarrow> ss[k := f (ss ! k)] = upd_first p f ss"
  by (induction ss arbitrary: k) (auto split: if_splits)

lemma upd_first_absent: "p \<notin> player ` set ss \<Longrightarrow> upd_first p f ss = ss"
  by (induction ss) auto

lemma upd_first_append:
  "upd_first p f (ss @ ts) =
     (if p \<in> player ` set ss then upd_first p f ss @ ts else ss @ upd_first p f ts)"
  by (induction ss) auto

lemma player_new_Score: "player (new_Score p) = p"
  by (simp add: new_Score_def)

lemma score_finisher_eq:
  "score_finisher g pts ss i =
     upd_first (results g ! i) (award g pts i) (ensure (results g ! i) ss)"
proof (cases "score_index (results g ! i) ss")
  case None
  then have a: "results g ! i \<notin> player ` set ss" by (simp add: score_index_None)
  have "score_finisher g pts ss i = ss @ [award g pts i (new_Score (results g ! i))]"
    using None by (simp add: score_finisher_def Score_getOrCreate_def award_def Let_def)
  then show ?thesis using a by (simp add: ensure_def upd_first_append player_new_Score)
next
  case (Some k)
  then have a: "results g ! i \<in> player ` set ss"
    using score_index_None [of "results g ! i" ss] by simp
  have "score_finisher g pts ss i = ss[k := award g pts i (ss ! k)]"
    using Some by (simp add: score_finisher_def Score_getOrCreate_def award_def Let_def)
  then show ?thesis using a Some by (simp add: ensure_def upd_first_index)
qed

lemma player_setScore: "player (setScore g v s) = player s"
  by (simp add: setScore_def split: option.split)

lemma player_setBonusPoints: "player (setBonusPoints g v s) = player s"
  by (simp add: setBonusPoints_def split: option.split)

lemma player_win: "player (win s) = player s"
  by (simp add: win_def)

lemma player_award: "player (award g pts i s) = player s"
  by (simp add: award_def Let_def player_setScore player_setBonusPoints player_win)

lemma map_player_upd_first:
  "(\<And>s. player (f s) = player s) \<Longrightarrow> map player (upd_first p f ss) = map player ss"
  by (induction ss) auto

lemma upd_first_commute:
  "p \<noteq> q \<Longrightarrow> upd_first p f (upd_first q h ss) = upd_first q h (upd_first p f ss)"
  if "\<And>s. player (f s) = player s" "\<And>s. player (h s) = player s"
  using that by (induction ss) auto

lemma upd_first_fuse:
  "(\<And>s. player (h s) = player s) \<Longrightarrow>
   upd_first p f (upd_first p h ss) = upd_first p (\<lambda>s. f (h s)) ss"
  by (induction ss) auto

lemma upd_first_id: "upd_first p (\<lambda>s. s) ss = ss"
  by (induction ss) auto

lemma ensure_present: "p \<in> player ` set ss \<Longrightarrow> ensure p ss = ss"
  by (simp add: ensure_def)

lemma players_ensure: "player ` set (ensure p ss) = insert p (player ` set ss)"
  by (auto simp: ensure_def player_new_Score)

lemma length_assign: "length (assign a k v) = max (length a) (Suc k)"
  by (auto simp: assign_def)

lemma at_assign: "at (assign a k v) m = (if m = k then Some v else at a m)"
  by (auto simp: assign_def at_def nth_append)

lemma assign_assign: "assign (assign a k u) k v = assign a k v"
  by (auto simp: assign_def list_update_append)

lemma length_upd_first: "length (upd_first p f ss) = length ss"
  by (induction ss) auto

lemma nth_upd_first:
  "j < length ss \<Longrightarrow>
   upd_first p f ss ! j = (if score_index p ss = Some j then f (ss ! j) else ss ! j)"
proof (induction ss arbitrary: j)
  case Nil then show ?case by simp
next
  case (Cons s ss)
  then show ?case by (cases j) auto
qed

lemma score_index_ensure:
  "j < length ss \<Longrightarrow> score_index p (ensure q ss) = Some j \<longleftrightarrow> score_index p ss = Some j"
proof -
  assume j: "j < length ss"
  have "score_index p (ss @ ts) = Some j \<longleftrightarrow> score_index p ss = Some j" for ts
    using j
  proof (induction ss arbitrary: j)
    case Nil then show ?case by simp
  next
    case (Cons s ss)
    then show ?case by (cases j) auto
  qed
  then show ?thesis by (simp add: ensure_def)
qed

lemma nth_score_finisher:
  assumes "j < length ss"
  shows "j < length (score_finisher g pts ss i) \<and>
     score_finisher g pts ss i ! j =
       (if score_index (results g ! i) ss = Some j then award g pts i (ss ! j) else ss ! j)"
proof -
  have l: "j < length (ensure (results g ! i) ss)" using assms by (simp add: ensure_def)
  have e: "ensure (results g ! i) ss ! j = ss ! j"
    using assms by (simp add: ensure_def nth_append)
  show ?thesis
    unfolding score_finisher_eq
    using l e assms by (simp add: length_upd_first nth_upd_first score_index_ensure)
qed

lemma wins_award: "wins (award g pts i s) = wins s + (if i = 0 then 1 else 0)"
  by (simp add: award_def Let_def setScore_def setBonusPoints_def win_def split: option.split)

lemma scores_award:
  "game_index g \<noteq> Some m \<Longrightarrow> at (scores (award g pts i s)) m = at (scores s) m"
  by (auto simp: award_def Let_def setScore_def setBonusPoints_def win_def at_assign
      split: option.split)

lemma bonusPoints_award:
  "game_index g \<noteq> Some m \<Longrightarrow> at (bonusPoints (award g pts i s)) m = at (bonusPoints s) m"
  by (auto simp: award_def Let_def setScore_def setBonusPoints_def win_def at_assign
      split: option.split)

lemma map_player_score_finisher:
  "map player (score_finisher g pts ss i) =
     map player ss @ (if results g ! i \<in> player ` set ss then [] else [results g ! i])"
  unfolding score_finisher_eq
  by (simp add: map_player_upd_first player_award ensure_def player_new_Score)

lemma distinct_score_finisher:
  "distinct (map player ss) \<Longrightarrow> distinct (map player (score_finisher g pts ss i))"
  by (auto simp: map_player_score_finisher)

lemma distinct_scoring_loop:
  "distinct (map player ss) \<Longrightarrow> distinct (map player (foldl (score_finisher g pts) ss is))"
  by (induction "is" arbitrary: ss) (simp_all add: distinct_score_finisher)

lemma distinct_calculateScores:
  "distinct (map player ss) \<Longrightarrow> distinct (map player (calculateScores g ss))"
  by (simp add: calculateScores_def distinct_scoring_loop)

lemma scoring_loop_frame:
  assumes "j < length ss"
  shows "j < length (foldl (score_finisher g pts) ss [0..<n]) \<and>
    player (foldl (score_finisher g pts) ss [0..<n] ! j) = player (ss ! j) \<and>
    (\<forall>m. game_index g \<noteq> Some m \<longrightarrow>
       at (scores (foldl (score_finisher g pts) ss [0..<n] ! j)) m = at (scores (ss ! j)) m \<and>
       at (bonusPoints (foldl (score_finisher g pts) ss [0..<n] ! j)) m =
         at (bonusPoints (ss ! j)) m) \<and>
    wins (foldl (score_finisher g pts) ss [0..<n] ! j) =
      wins (ss ! j) + (if 0 < n \<and> score_index (results g ! 0) ss = Some j then 1 else 0)"
proof (induction n)
  case 0
  then show ?case using assms by simp
next
  case (Suc n)
  define t where "t = foldl (score_finisher g pts) ss [0..<n]"
  have f: "foldl (score_finisher g pts) ss [0..<Suc n] = score_finisher g pts t n"
    by (simp add: t_def)
  have j: "j < length t" using Suc by (simp add: t_def)
  note st = nth_score_finisher [OF j, of g pts n]
  show ?case
  proof (cases "score_index (results g ! n) t = Some j")
    case False
    then have "score_finisher g pts t n ! j = t ! j" using st by simp
    moreover have "n = 0 \<Longrightarrow> score_index (results g ! 0) ss \<noteq> Some j"
      using False by (simp add: t_def)
    ultimately show ?thesis unfolding f using Suc st unfolding t_def [symmetric] by auto
  next
    case True
    then have eq: "score_finisher g pts t n ! j = award g pts n (t ! j)" using st by simp
    have "n = 0 \<Longrightarrow> score_index (results g ! 0) ss = Some j"
      using True by (simp add: t_def)
    then show ?thesis unfolding f eq using Suc st unfolding t_def [symmetric]
      by (auto simp: player_award wins_award scores_award bonusPoints_award)
  qed
qed

section \<open>What scoring a game records\<close>

text \<open>
  In a game whose finishers are distinct, the Score of the finisher at index \<open>i\<close> holds,
  at the game's index, the placement points of position \<open>i\<close> plus the two bonuses, and
  the bonuses alone among the bonus points.
\<close>

lemma score_index_players:
  "map player ss = map player ts \<Longrightarrow> score_index p ss = score_index p ts"
proof (induction ss arbitrary: ts)
  case Nil then show ?case by simp
next
  case (Cons s ss)
  then obtain t ts' where ts: "ts = t # ts'" by (cases ts) auto
  with Cons show ?case by auto
qed

lemma score_index_upd_first:
  "(\<And>s. player (f s) = player s) \<Longrightarrow> score_index p (upd_first q f ss) = score_index p ss"
  by (rule score_index_players) (simp add: map_player_upd_first)

lemma placement_nth: "i < n \<Longrightarrow> placement n ! i = adjust_points n ! i"
  by (simp add: placement_def)

lemma award_recorded:
  "game_index g = Some k \<Longrightarrow>
   at (scores (award g pts i s)) k =
     Some (pts ! i + (calculateFishChipBonus g (results g ! i)
                      + calculateBountyBonus g (results g ! i))) \<and>
   at (bonusPoints (award g pts i s)) k =
     Some (calculateFishChipBonus g (results g ! i) + calculateBountyBonus g (results g ! i))"
  by (simp add: award_def Let_def setScore_def setBonusPoints_def at_assign)

lemma scoring_loop_recorded:
  assumes "distinct (results g)" "game_index g = Some k" "i < n" "n \<le> length (results g)"
  shows "\<exists>j. score_index (results g ! i) (foldl (score_finisher g pts) ss [0..<n]) = Some j \<and>
     j < length (foldl (score_finisher g pts) ss [0..<n]) \<and>
     at (scores (foldl (score_finisher g pts) ss [0..<n] ! j)) k =
       Some (pts ! i + (calculateFishChipBonus g (results g ! i)
                        + calculateBountyBonus g (results g ! i))) \<and>
     at (bonusPoints (foldl (score_finisher g pts) ss [0..<n] ! j)) k =
       Some (calculateFishChipBonus g (results g ! i) + calculateBountyBonus g (results g ! i))"
  using assms(3,4)
proof (induction n)
  case 0 then show ?case by simp
next
  case (Suc n)
  define t where "t = foldl (score_finisher g pts) ss [0..<n]"
  define e where "e = ensure (results g ! n) t"
  have f: "foldl (score_finisher g pts) ss [0..<Suc n] =
           upd_first (results g ! n) (award g pts n) e"
    by (simp add: t_def e_def score_finisher_eq)
  show ?case
  proof (cases "i = n")
    case True
    have "results g ! n \<in> player ` set e" by (simp add: e_def players_ensure)
    then obtain j where j: "score_index (results g ! n) e = Some j"
      using score_index_None [of "results g ! n" e] by (cases "score_index (results g ! n) e") auto
    then have jl: "j < length e" using score_index_Some by blast
    have "upd_first (results g ! n) (award g pts n) e ! j = award g pts n (e ! j)"
      using jl j by (simp add: nth_upd_first)
    then show ?thesis
      unfolding f using True j jl award_recorded [OF assms(2), of pts n "e ! j"]
      by (simp add: score_index_upd_first player_award length_upd_first)
  next
    case False
    then have "i < n" "n \<le> length (results g)" using Suc.prems by simp_all
    from Suc.IH [OF this] obtain j where j: "score_index (results g ! i) t = Some j"
      "j < length t"
      "at (scores (t ! j)) k =
         Some (pts ! i + (calculateFishChipBonus g (results g ! i)
                          + calculateBountyBonus g (results g ! i)))"
      "at (bonusPoints (t ! j)) k =
         Some (calculateFishChipBonus g (results g ! i) + calculateBountyBonus g (results g ! i))"
      unfolding t_def by blast
    have ne: "results g ! n \<noteq> results g ! i"
      using assms(1) Suc.prems False by (simp add: nth_eq_iff_index_eq)
    have "score_index (results g ! i) e = Some j"
      using j(1,2) by (simp add: e_def score_index_ensure)
    moreover have "j < length e" "e ! j = t ! j"
      using j(2) by (simp_all add: e_def ensure_def nth_append)
    ultimately have je: "score_index (results g ! i) e = Some j" "j < length e" "e ! j = t ! j"
      by simp_all
    have "player (e ! j) = results g ! i" using score_index_Some [OF je(1)] by simp
    then have "score_index (results g ! n) e \<noteq> Some j"
      using ne score_index_Some [of "results g ! n" e j] by auto
    then have "upd_first (results g ! n) (award g pts n) e ! j = t ! j"
      using je by (simp add: nth_upd_first)
    then show ?thesis
      unfolding f using je j(3,4)
      by (simp add: score_index_upd_first player_award length_upd_first)
  qed
qed

lemma calculateScores_recorded:
  assumes "distinct (results g)" "game_index g = Some k" "i < length (results g)"
  shows "\<exists>j. score_index (results g ! i) (calculateScores g ss) = Some j \<and>
     at (scores (calculateScores g ss ! j)) k =
       Some (placement (length (results g)) ! i + calculateFishChipBonus g (results g ! i)
             + calculateBountyBonus g (results g ! i)) \<and>
     at (bonusPoints (calculateScores g ss ! j)) k =
       Some (calculateFishChipBonus g (results g ! i) + calculateBountyBonus g (results g ! i))"
  using scoring_loop_recorded [OF assms(1,2,3), of "adjust_points (length (results g))" ss]
  by (auto simp: calculateScores_def placement_nth [OF assms(3)] add.assoc)

section \<open>Adding a game\<close>

lemma games_addGame_entered:
  "games (addGame s g flag) = games s @ [entered s g]"
  by (simp add: addGame_def Let_def sortScores_def entered_def)

lemma season_scores_addGame:
  "season_scores (addGame s g flag) =
     (if falsy flag
      then sort_js (\<lambda>a b. getOverallScore b - getOverallScore a)
             (calculateScores (entered s g) (season_scores s))
      else calculateScores (entered s g) (season_scores s))"
  by (simp add: addGame_def Let_def sortScores_def entered_def)

lemma season_name_addGame: "season_name (addGame s g flag) = season_name s"
  by (simp add: addGame_def Let_def sortScores_def)

lemma results_entered: "results (entered s g) = results g"
  by (simp add: entered_def setPreviousGameInfo_def)

lemma game_index_entered: "game_index (entered s g) = Some (length (games s))"
  by (simp add: entered_def)

lemma sample_games: "games (season_of ''Spring'' [week1, week2]) = [game1, game2]"
  by code_simp

lemma score_index_distinct:
  assumes "distinct (map player ss)" "x \<in> set ss"
  shows "\<exists>j. score_index (player x) ss = Some j \<and> ss ! j = x"
proof -
  obtain j where j: "j < length ss" "ss ! j = x" using assms(2) by (auto simp: in_set_conv_nth)
  have "\<forall>i<j. player (ss ! i) \<noteq> player x"
  proof (intro allI impI)
    fix i assume i: "i < j"
    have "i < length (map player ss)" "j < length (map player ss)" "i \<noteq> j"
      using i j(1) by simp_all
    then have "map player ss ! i \<noteq> map player ss ! j"
      using assms(1) nth_eq_iff_index_eq [of "map player ss" i j] by blast
    then show "player (ss ! i) \<noteq> player x" using i j by simp
  qed
  then have "score_index (player x) ss = Some j"
    using j by (intro score_index_first) auto
  then show ?thesis using j by blast
qed

lemma distinct_addGame:
  "distinct (map player (season_scores s)) \<Longrightarrow>
   distinct (map player (season_scores (addGame s g flag)))"
proof -
  assume "distinct (map player (season_scores s))"
  then have d: "distinct (map player (calculateScores (entered s g) (season_scores s)))"
    by (rule distinct_calculateScores)
  have "mset (season_scores (addGame s g flag)) =
        mset (calculateScores (entered s g) (season_scores s))"
    by (simp add: season_scores_addGame mset_sort_js)
  then show ?thesis using d by (metis mset_eq_imp_distinct_iff mset_map)
qed

lemma distinct_season_of: "distinct (map player (season_scores (season_of n es)))"
proof -
  have "distinct (map player (season_scores s)) \<Longrightarrow>
        distinct (map player (season_scores (foldl add_entry s es)))" for s
    by (induction es arbitrary: s)
       (simp_all add: add_entry_def distinct_addGame split: prod.split)
  then show ?thesis by (simp add: season_of_def new_Season_def)
qed

text \<open>
  C10. Adding a game leaves, in the Score of every player who already has one (one Score
  per player, as in every season the program builds), each per-game total and bonus
  component at an index other than the new game's as it was, and each win counter too,
  but for the Score of the new game's first finisher, whose counter grows by exactly 1.
\<close>

theorem addGame_frame:
  assumes "distinct (map player (season_scores s))"
    and "score_index q (season_scores s) = Some j"
  shows "\<exists>j'. score_index q (season_scores (addGame s g flag)) = Some j' \<and>
     (\<forall>m. m \<noteq> length (games s) \<longrightarrow>
        at (scores (season_scores (addGame s g flag) ! j')) m =
          at (scores (season_scores s ! j)) m \<and>
        at (bonusPoints (season_scores (addGame s g flag) ! j')) m =
          at (bonusPoints (season_scores s ! j)) m) \<and>
     wins (season_scores (addGame s g flag) ! j') =
       wins (season_scores s ! j) + (if results g \<noteq> [] \<and> q = results g ! 0 then 1 else 0)"
proof -
  define ss where "ss = season_scores s"
  define G where "G = entered s g"
  define U where "U = calculateScores G ss"
  define T where "T = season_scores (addGame s g flag)"
  have j: "j < length ss" "player (ss ! j) = q"
    using score_index_Some [OF assms(2)] by (simp_all add: ss_def)
  have U: "U = foldl (score_finisher G (adjust_points (length (results G)))) ss
                 [0..<length (results g)]"
    by (simp add: U_def calculateScores_def G_def results_entered)
  note fr = scoring_loop_frame [OF j(1), of G "adjust_points (length (results G))"
      "length (results g)", folded U]
  have first: "score_index (results g ! 0) ss = Some j \<longleftrightarrow> q = results g ! 0"
    using assms(2) score_index_Some [of "results g ! 0" ss j] j(2) by (auto simp: ss_def)
  have w: "wins (U ! j) = wins (ss ! j) + (if results g \<noteq> [] \<and> q = results g ! 0 then 1 else 0)"
    using fr first by (simp add: G_def results_entered)
  have a: "at (scores (U ! j)) m = at (scores (ss ! j)) m \<and>
           at (bonusPoints (U ! j)) m = at (bonusPoints (ss ! j)) m"
    if "m \<noteq> length (games s)" for m
    using fr that by (simp add: G_def game_index_entered)
  have dU: "distinct (map player U)"
    using assms(1) by (simp add: U_def ss_def distinct_calculateScores)
  have mT: "mset T = mset U"
    by (simp add: T_def season_scores_addGame U_def G_def ss_def mset_sort_js)
  have dT: "distinct (map player T)"
    using dU mT by (metis mset_eq_imp_distinct_iff mset_map)
  have "U ! j \<in> set T" using fr mT by (metis mset_eq_setD nth_mem)
  from score_index_distinct [OF dT this] fr
  obtain j' where j': "score_index q T = Some j'" "T ! j' = U ! j"
    using j(2) by auto
  show ?thesis
    using j' w a unfolding T_def ss_def by auto
qed

theorem addGame_frame_witness:
  "distinct (map player (season_scores (season_of ''Spring'' [week1])))
   \<and> score_index pC (season_scores (season_of ''Spring'' [week1])) = Some 2
   \<and> (\<exists>j'. score_index pC (season_scores (add_entry (season_of ''Spring'' [week1]) week2)) = Some j'
        \<and> at (scores (season_scores (add_entry (season_of ''Spring'' [week1]) week2) ! j')) 0 = Some 11
        \<and> at (bonusPoints (season_scores (add_entry (season_of ''Spring'' [week1]) week2) ! j')) 0 = Some 0
        \<and> wins (season_scores (add_entry (season_of ''Spring'' [week1]) week2) ! j') = 1)"
proof -
  define s where "s = season_of ''Spring'' [week1]"
  define g where "g = new_Game (2012, 4, 14) [pC, pF, pA, pB, pD, pE] (Some [(pC, pA), (pC, pB), (pF, pD)])"
  have d: "distinct (map player (season_scores s))" unfolding s_def by code_simp
  have i: "score_index pC (season_scores s) = Some 2" unfolding s_def by code_simp
  have l: "length (games s) = 1" unfolding s_def by code_simp
  have o: "at (scores (season_scores s ! 2)) 0 = Some 11"
     "at (bonusPoints (season_scores s ! 2)) 0 = Some 0" "wins (season_scores s ! 2) = 0"
    unfolding s_def by code_simp+
  have r: "results g \<noteq> [] \<and> pC = results g ! 0" by (simp add: g_def new_Game_def)
  have a: "add_entry s week2 = addGame s g None" by (simp add: add_entry_def week2_def g_def)
  from addGame_frame [OF d i, of g None] obtain j' where
    j: "score_index pC (season_scores (addGame s g None)) = Some j'"
     "\<forall>m. m \<noteq> length (games s) \<longrightarrow>
        at (scores (season_scores (addGame s g None) ! j')) m =
          at (scores (season_scores s ! 2)) m \<and>
        at (bonusPoints (season_scores (addGame s g None) ! j')) m =
          at (bonusPoints (season_scores s ! 2)) m"
     "wins (season_scores (addGame s g None) ! j') =
       wins (season_scores s ! 2) + (if results g \<noteq> [] \<and> pC = results g ! 0 then 1 else 0)"
    by blast
  have "(0::nat) \<noteq> length (games s)" using l by simp
  with j(2) have "at (scores (season_scores (addGame s g None) ! j')) 0 = Some 11"
      "at (bonusPoints (season_scores (addGame s g None) ! j')) 0 = Some 0"
    using o by simp_all
  moreover have "wins (season_scores (addGame s g None) ! j') = 1" using j(3) r o by simp
  ultimately show ?thesis using d i j(1) unfolding s_def [symmetric] a by blast
qed

text \<open>
  C9. After \<^verbatim>\<open>addGame\<close> with the flag left out or \<^verbatim>\<open>false\<close> (the calls that sort), the
  Score collection is in descending order of overall score; it holds the Scores that
  scoring the game produced, and Scores of equal overall score stand in the order they
  had before the sort, which is the collection of the same call made without sorting.
\<close>

theorem addGame_sorted_stable:
  assumes "falsy flag"
  shows "sorted_wrt (\<lambda>a b. getOverallScore b \<le> getOverallScore a)
           (season_scores (addGame s g flag))
    \<and> mset (season_scores (addGame s g flag)) = mset (season_scores (addGame s g (Some True)))
    \<and> (\<forall>v. filter (\<lambda>x. getOverallScore x = v) (season_scores (addGame s g flag)) =
            filter (\<lambda>x. getOverallScore x = v) (season_scores (addGame s g (Some True))))"
proof -
  have t: "\<not> falsy (Some True)" by (simp add: falsy_def)
  show ?thesis
    using assms t
    by (simp add: season_scores_addGame sorted_sort_js stable_sort_js mset_sort_js)
qed

theorem addGame_sorted_stable_witness:
  "falsy None
   \<and> sorted_wrt (\<lambda>a b. getOverallScore b \<le> getOverallScore a)
        (season_scores (addGame (season_of ''Spring'' [week1]) (new_Game (2012, 4, 14) [pC, pF, pA, pB, pD, pE] None) None))
   \<and> map (\<lambda>s. (player_name (player s), getOverallScore s))
        (season_scores (season_of ''Spring'' [week1, week2])) =
      [(''C'', 28), (''A'', 26), (''B'', 22), (''F'', 19), (''D'', 16), (''E'', 12)]"
proof -
  have f: "falsy None" by (simp add: falsy_def)
  have "map (\<lambda>s. (player_name (player s), getOverallScore s))
        (season_scores (season_of ''Spring'' [week1, week2])) =
      [(''C'', 28), (''A'', 26), (''B'', 22), (''F'', 19), (''D'', 16), (''E'', 12)]"
    by code_simp
  then show ?thesis
    using f addGame_sorted_stable [OF f, of "season_of ''Spring'' [week1]" "new_Game (2012, 4, 14) [pC, pF, pA, pB, pD, pE] None"]
    by simp
qed

section \<open>Scoring a game twice\<close>

lemma wloop_Nil: "wloop g pts ss [] = ss"
  by (simp add: wloop_def)

lemma wloop_Cons:
  "wloop g pts ss (i # is) = wloop g pts (upd_first (results g ! i) (award g pts i) ss) is"
  by (simp add: wloop_def)

lemma wloop_snoc:
  "wloop g pts ss (is @ [i]) = upd_first (results g ! i) (award g pts i) (wloop g pts ss is)"
  by (simp add: wloop_def)

lemma eloop_snoc: "eloop g ss (is @ [i]) = ensure (results g ! i) (eloop g ss is)"
  by (simp add: eloop_def)

lemma map_player_wloop: "map player (wloop g pts ss is) = map player ss"
  by (induction "is" arbitrary: ss)
     (simp_all add: wloop_Nil wloop_Cons map_player_upd_first player_award)

lemma players_wloop: "player ` set (wloop g pts ss is) = player ` set ss"
  using map_player_wloop [of g pts ss "is"] by (metis list.set_map)

lemma players_upd_first:
  "(\<And>s. player (f s) = player s) \<Longrightarrow> player ` set (upd_first p f ss) = player ` set ss"
  using map_player_upd_first [of f p ss] by (metis list.set_map)

lemma players_eloop:
  "player ` set (eloop g ss is) = player ` set ss \<union> (\<lambda>i. results g ! i) ` set is"
  by (induction "is" rule: rev_induct) (auto simp: eloop_def players_ensure)

lemma eloop_present:
  "\<forall>i \<in> set is. results g ! i \<in> player ` set ss \<Longrightarrow> eloop g ss is = ss"
  by (induction "is" arbitrary: ss) (simp_all add: eloop_def ensure_present)

lemma ensure_upd_first:
  assumes "q \<in> player ` set ss" "\<And>s. player (f s) = player s"
  shows "ensure p (upd_first q f ss) = upd_first q f (ensure p ss)"
  using assms by (simp add: ensure_def players_upd_first upd_first_append)

lemma ensure_wloop:
  "\<forall>i \<in> set is. results g ! i \<in> player ` set ss \<Longrightarrow>
   ensure p (wloop g pts ss is) = wloop g pts (ensure p ss) is"
proof (induction "is" arbitrary: ss)
  case Nil then show ?case by (simp add: wloop_Nil)
next
  case (Cons i "is")
  have "\<forall>k \<in> set is.
      results g ! k \<in> player ` set (upd_first (results g ! i) (award g pts i) ss)"
    using Cons.prems by (simp add: players_upd_first player_award)
  from Cons.IH [OF this] Cons.prems show ?case
    by (simp add: wloop_Cons ensure_upd_first player_award)
qed

lemma scoring_loop_split:
  "foldl (score_finisher g pts) ss is = wloop g pts (eloop g ss is) is"
proof (induction "is" rule: rev_induct)
  case Nil then show ?case by (simp add: wloop_def eloop_def)
next
  case (snoc i "is")
  have "\<forall>k \<in> set is. results g ! k \<in> player ` set (eloop g ss is)"
    by (simp add: players_eloop)
  then have "ensure (results g ! i) (wloop g pts (eloop g ss is) is) =
      wloop g pts (eloop g ss (is @ [i])) is"
    by (simp add: ensure_wloop eloop_snoc)
  then show ?case
    using snoc by (simp add: score_finisher_eq wloop_snoc)
qed

lemma award_award: "award g pts m (award g pts i s) = award g pts m (bump i s)"
  by (simp add: award_def bump_def Let_def setScore_def setBonusPoints_def win_def
      assign_assign split: option.split)

lemma award_win: "award g pts m (win s) = win (award g pts m s)"
  by (simp add: award_def Let_def setScore_def setBonusPoints_def win_def split: option.split)

lemma player_bump: "player (bump i s) = player s"
  by (simp add: bump_def player_win)

lemma wloop_absorb:
  "results g ! i \<in> (\<lambda>k. results g ! k) ` set is \<Longrightarrow>
   wloop g pts (upd_first (results g ! i) (award g pts i) ss) is =
   wloop g pts (upd_first (results g ! i) (bump i) ss) is"
proof (induction "is" arbitrary: ss)
  case Nil then show ?case by simp
next
  case (Cons m "is")
  show ?case
  proof (cases "results g ! m = results g ! i")
    case True
    then show ?thesis
      by (simp add: wloop_Cons upd_first_fuse player_award player_bump award_award)
  next
    case False
    then have "results g ! i \<in> (\<lambda>k. results g ! k) ` set is" using Cons.prems by auto
    note ih = Cons.IH [OF this, of "upd_first (results g ! m) (award g pts m) ss"]
    have c1: "upd_first (results g ! m) (award g pts m)
                (upd_first (results g ! i) (award g pts i) ss) =
              upd_first (results g ! i) (award g pts i)
                (upd_first (results g ! m) (award g pts m) ss)"
      using False by (intro upd_first_commute) (simp_all add: player_award)
    have c2: "upd_first (results g ! m) (award g pts m)
                (upd_first (results g ! i) (bump i) ss) =
              upd_first (results g ! i) (bump i)
                (upd_first (results g ! m) (award g pts m) ss)"
      using False by (intro upd_first_commute) (simp_all add: player_award player_bump)
    show ?thesis by (simp only: wloop_Cons c1 c2 ih)
  qed
qed

lemma upd_first_win_award:
  "upd_first q (award g pts m) (upd_first p win ss) =
   upd_first p win (upd_first q (award g pts m) ss)"
proof (cases "p = q")
  case True
  then show ?thesis by (simp add: upd_first_fuse player_award player_win award_win)
next
  case False
  then show ?thesis by (intro upd_first_commute) (simp_all add: player_award player_win)
qed

lemma wloop_win:
  "wloop g pts (upd_first p win ss) is = upd_first p win (wloop g pts ss is)"
  by (induction "is" arbitrary: ss) (simp_all add: wloop_Nil wloop_Cons upd_first_win_award)

lemma wloop_twice:
  "n \<le> N \<Longrightarrow>
   wloop g pts (wloop g pts ss [0..<n]) [0..<N] =
     (if n = 0 then wloop g pts ss [0..<N]
      else upd_first (results g ! 0) win (wloop g pts ss [0..<N]))"
proof (induction n)
  case 0 then show ?case by (simp add: wloop_Nil)
next
  case (Suc n)
  have "results g ! n \<in> (\<lambda>k. results g ! k) ` set [0..<N]" using Suc.prems by auto
  note ab = wloop_absorb [OF this, of pts "wloop g pts ss [0..<n]"]
  have eq: "wloop g pts (wloop g pts ss [0..<Suc n]) [0..<N] =
      wloop g pts (upd_first (results g ! n) (bump n) (wloop g pts ss [0..<n])) [0..<N]"
    using ab by (simp add: wloop_snoc)
  show ?case
  proof (cases n)
    case 0
    have "bump 0 = win" by (simp add: bump_def fun_eq_iff)
    then show ?thesis using eq 0 by (simp add: wloop_Nil wloop_win)
  next
    case (Suc k)
    then have "bump n = (\<lambda>s. s)" by (simp add: bump_def fun_eq_iff)
    then show ?thesis using eq Suc.IH Suc.prems Suc by (simp add: upd_first_id)
  qed
qed

lemma calculateScores_twice:
  "calculateScores g (calculateScores g ss) =
     (if results g = [] then calculateScores g ss
      else upd_first (results g ! 0) win (calculateScores g ss))"
proof -
  define N where "N = length (results g)"
  define pts where "pts = adjust_points N"
  define z where "z = eloop g ss [0..<N]"
  have once: "calculateScores g ss = wloop g pts z [0..<N]"
    by (simp add: calculateScores_def scoring_loop_split N_def pts_def z_def)
  have "\<forall>i \<in> set [0..<N]. results g ! i \<in> player ` set (wloop g pts z [0..<N])"
    by (simp add: players_wloop z_def players_eloop)
  then have "eloop g (wloop g pts z [0..<N]) [0..<N] = wloop g pts z [0..<N]"
    by (rule eloop_present)
  then have "calculateScores g (calculateScores g ss) =
      wloop g pts (wloop g pts z [0..<N]) [0..<N]"
    unfolding once by (simp add: calculateScores_def scoring_loop_split N_def [symmetric] pts_def [symmetric])
  also have "\<dots> = (if N = 0 then wloop g pts z [0..<N]
      else upd_first (results g ! 0) win (wloop g pts z [0..<N]))"
    by (rule wloop_twice) simp
  finally show ?thesis unfolding once by (simp add: N_def)
qed

text \<open>
  C7, as the code has it. A second \<^verbatim>\<open>calculateScores\<close> of the same game on the same
  collection leaves the players, their order, every per-game total and every bonus
  component as the first left them, and counts the win of the first finisher once more:
  nothing else changes, and nothing at all when the game has no finisher.
\<close>

theorem calculateScores_again:
  "map player (calculateScores g (calculateScores g ss)) = map player (calculateScores g ss)
   \<and> map scores (calculateScores g (calculateScores g ss)) = map scores (calculateScores g ss)
   \<and> map bonusPoints (calculateScores g (calculateScores g ss)) =
       map bonusPoints (calculateScores g ss)
   \<and> (results g = [] \<longrightarrow> calculateScores g (calculateScores g ss) = calculateScores g ss)
   \<and> (results g \<noteq> [] \<longrightarrow>
       (\<exists>k. score_index (results g ! 0) (calculateScores g ss) = Some k \<and>
         calculateScores g (calculateScores g ss) =
           (calculateScores g ss)[k := win (calculateScores g ss ! k)]))"
proof -
  define once where "once = calculateScores g ss"
  define twice where "twice = calculateScores g once"
  have tw: "twice = (if results g = [] then once else upd_first (results g ! 0) win once)"
    by (simp add: twice_def once_def calculateScores_twice)
  have w: "map scores (upd_first p win xs) = map scores xs"
          "map bonusPoints (upd_first p win xs) = map bonusPoints xs" for p xs
    by (induction xs) (simp_all add: win_def)
  have p: "map player twice = map player once"
    unfolding tw by (simp add: map_player_upd_first player_win)
  have s: "map scores twice = map scores once" "map bonusPoints twice = map bonusPoints once"
    unfolding tw by (simp_all add: w)
  have e: "\<exists>k. score_index (results g ! 0) once = Some k \<and> twice = once[k := win (once ! k)]"
    if ne: "results g \<noteq> []"
  proof -
    have "once = wloop g (adjust_points (length (results g)))
        (eloop g ss [0..<length (results g)]) [0..<length (results g)]"
      by (simp add: once_def calculateScores_def scoring_loop_split)
    then have "player ` set once =
        player ` set ss \<union> (\<lambda>i. results g ! i) ` set [0..<length (results g)]"
      by (simp add: players_wloop players_eloop)
    moreover have "0 \<in> set [0..<length (results g)]" using ne by simp
    ultimately have "results g ! 0 \<in> player ` set once" by blast
    then obtain k where k: "score_index (results g ! 0) once = Some k"
      using score_index_None [of "results g ! 0" once] by (cases "score_index (results g ! 0) once") auto
    then show ?thesis using tw ne upd_first_index [OF k, of win] by auto
  qed
  show ?thesis
    using p s e tw unfolding twice_def once_def by auto
qed

theorem calculateScores_again_witness:
  "results game2 \<noteq> []
   \<and> (\<exists>k. score_index (results game2 ! 0) (calculateScores game2 (calculateScores game1 [])) = Some k \<and>
         calculateScores game2 (calculateScores game2 (calculateScores game1 [])) =
           (calculateScores game2 (calculateScores game1 []))
             [k := win (calculateScores game2 (calculateScores game1 []) ! k)])"
proof -
  have "results game2 \<noteq> []" by (simp add: game2_def)
  then show ?thesis using calculateScores_again [of game2 "calculateScores game1 []"] by simp
qed

text \<open>
  C7 as stated fails on the win counters: scoring the opening game of six players twice
  on an empty collection leaves the winner with two wins, not one.
\<close>

theorem calculateScores_again_wins:
  "map wins (calculateScores game1 []) = [1, 0, 0, 0, 0, 0]
   \<and> map wins (calculateScores game1 (calculateScores game1 [])) = [2, 0, 0, 0, 0, 0]"
  by code_simp

section \<open>The engine on dense results\<close>

text \<open>
  On a game whose results are a dense array of Players, and on Scores of Players, the
  engine for arrays with unfilled positions does what the engine of the first sections
  does, and it never throws.
\<close>

lemma indexOf_holes_lift:
  "indexOf_holes (map (\<lambda>p. Some (Ref p)) xs) (Ref p) = indexOf xs p"
  by (induction xs) (simp_all add: Let_def)

lemma indexOf_holes_Undefined:
  "indexOf_holes (map (\<lambda>p. Some (Ref p)) xs) Undefined = -1"
  by (induction xs) (simp_all add: Let_def)

lemma indexOf_Ref: "indexOf (map Ref xs) (Ref p) = indexOf xs p"
  by (induction xs) (simp_all add: Let_def)

lemma read_lift: "i < length xs \<Longrightarrow> read (map (\<lambda>p. Some (Ref p)) xs) i = Ref (xs ! i)"
  by (simp add: read_def slot_value_def)

lemma bounty_scan_lift:
  "bounty_scan_raw (map (\<lambda>p. Some (Ref p)) res) (map (\<lambda>p. Some (Ref p)) prev) (map Ref b) =
     map Ref (bounty_scan res prev b)"
proof (induction prev arbitrary: b)
  case Nil
  then show ?case by simp
next
  case (Cons a prev)
  show ?case
    using Cons.IH [of b] Cons.IH [of "b @ [a]"]
    by (simp add: slot_value_def indexOf_holes_lift)
qed

lemma fish_scan_lift:
  "n \<le> length prev \<Longrightarrow>
   fish_scan_raw (map (\<lambda>p. Some (Ref p)) res) (map (\<lambda>p. Some (Ref p)) prev) n
     (map_option Ref f) = map_option Ref (fish_scan res prev n f)"
  by (induction n) (simp_all add: read_lift indexOf_holes_lift)

lemma setPreviousGameInfo_lift:
  "setPreviousGameInfo_raw (lift_game g) (lift_game prev) =
     lift_game (setPreviousGameInfo g prev)"
  using bounty_scan_lift [of "results g" "results prev" "[]"]
    fish_scan_lift [of "length (results prev)" "results prev" "results g" "fishChipper g"]
  by (simp add: setPreviousGameInfo_raw_def setPreviousGameInfo_def lift_game_def)

lemma getPaidPlayers_lift:
  "getPaidPlayers_raw (lift_game g) = map (\<lambda>p. Some (Ref p)) (getPaidPlayers g)"
  by (simp add: getPaidPlayers_raw_def getPaidPlayers_def lift_game_def Let_def take_map)

lemma calculateFishChipBonus_lift:
  "calculateFishChipBonus_raw (lift_game g) (Ref p) = calculateFishChipBonus g p"
proof -
  have "Some (Ref p) = raw_fishChipper (lift_game g) \<longleftrightarrow> Some p = fishChipper g"
    by (cases "fishChipper g") (auto simp: lift_game_def)
  then show ?thesis
    by (simp add: calculateFishChipBonus_raw_def calculateFishChipBonus_def
        getPaidPlayers_lift indexOf_holes_lift)
qed

lemma bounty_loop_lift:
  "bounty_loop_raw (map Ref b) (Ref p) (map (\<lambda>ko. (Ref (fst ko), Ref (snd ko))) kos) acc =
     bounty_loop b p kos acc"
  by (induction kos arbitrary: acc) (simp_all add: indexOf_Ref)

lemma calculateBountyBonus_lift:
  "calculateBountyBonus_raw (lift_game g) (Ref p) = calculateBountyBonus g p"
  by (cases "bountyPlayers g")
     (simp_all add: calculateBountyBonus_raw_def calculateBountyBonus_def lift_game_def
        bounty_loop_lift)

lemma raw_score_index_lift:
  "raw_score_index (Ref p) (map lift_score ss) = score_index p ss"
  by (induction ss) (simp_all add: lift_score_def)

lemma lift_win: "lift_score (win s) = win_raw (lift_score s)"
  by (simp add: lift_score_def win_def win_raw_def)

lemma lift_setScore: "lift_score (setScore g v s) = setScore_raw (lift_game g) v (lift_score s)"
  by (simp add: lift_score_def setScore_def setScore_raw_def lift_game_def split: option.split)

lemma lift_setBonusPoints:
  "lift_score (setBonusPoints g v s) = setBonusPoints_raw (lift_game g) v (lift_score s)"
  by (simp add: lift_score_def setBonusPoints_def setBonusPoints_raw_def lift_game_def
      split: option.split)

lemmas lift_score_updates = lift_win lift_setScore lift_setBonusPoints

lemma snoc_update_map: "(map f ss @ [y])[length ss := z] = map f ss @ [z]"
  using list_update_length [of "map f ss" y "[]" z] by simp

lemma snoc_nth_map: "(map f ss @ [y]) ! length ss = y"
  using nth_append_length [of "map f ss" y "[]"] by simp

lemma score_finisher_lift:
  assumes "i < length (results g)"
  shows "score_finisher_raw (lift_game g) pts (map lift_score ss) i =
           map lift_score (score_finisher g pts ss i)"
proof -
  have r: "read (raw_results (lift_game g)) i = Ref (results g ! i)"
    using assms by (simp add: lift_game_def read_lift)
  have n: "new_Score_raw (Ref p) = lift_score (new_Score p)" for p
    by (simp add: new_Score_raw_def new_Score_def lift_score_def)
  show ?thesis
  proof (cases "score_index (results g ! i) ss")
    case None
    then show ?thesis
      by (simp add: score_finisher_raw_def score_finisher_def Score_getOrCreate_raw_def
          Score_getOrCreate_def r raw_score_index_lift Let_def n snoc_update_map
          snoc_nth_map calculateFishChipBonus_lift calculateBountyBonus_lift
          lift_score_updates)
  next
    case (Some k)
    then have "k < length ss" by (simp add: score_index_Some)
    then show ?thesis using Some
      by (simp add: score_finisher_raw_def score_finisher_def Score_getOrCreate_raw_def
          Score_getOrCreate_def r raw_score_index_lift Let_def map_update
          calculateFishChipBonus_lift calculateBountyBonus_lift lift_score_updates)
  qed
qed

lemma scoring_loop_lift:
  "n \<le> length (results g) \<Longrightarrow>
   foldl (score_finisher_raw (lift_game g) pts) (map lift_score ss) [0..<n] =
     map lift_score (foldl (score_finisher g pts) ss [0..<n])"
  by (induction n) (simp_all add: score_finisher_lift)

lemma calculateScores_lift:
  "calculateScores_raw (lift_game g) (map lift_score ss) =
     Inr (map lift_score (calculateScores g ss))"
proof -
  have "raw_fishChipper (lift_game g) \<noteq> Some Undefined"
    by (cases "fishChipper g") (simp_all add: lift_game_def)
  moreover have "length (raw_results (lift_game g)) = length (results g)"
    by (simp add: lift_game_def)
  ultimately show ?thesis
    by (simp add: calculateScores_raw_def calculateScores_def scoring_loop_lift)
qed

lemma getOverallScore_lift: "getOverallScore_raw (lift_score s) = getOverallScore s"
  by (simp add: getOverallScore_raw_def getOverallScore_def getGameScores_def getGameScores_raw_def lift_score_def)

lemma sort_insert_map:
  "(\<And>a b. c' (f a) (f b) = c a b) \<Longrightarrow>
   sort_insert c' (f x) (map f ys) = map f (sort_insert c x ys)"
  by (induction ys) simp_all

lemma sort_js_map:
  "(\<And>a b. c' (f a) (f b) = c a b) \<Longrightarrow> sort_js c' (map f xs) = map f (sort_js c xs)"
  by (induction xs rule: rev_induct) (simp_all add: sort_js_Nil sort_js_snoc sort_insert_map)

lemma addGame_raw_lift:
  "addGame_raw (lift_season s) (lift_game g) flag = Inr (lift_season (addGame s g flag))"
proof -
  define g2 where "g2 = entered s g"
  have e: "(if length (raw_games (lift_season s)) \<noteq> 0
            then setPreviousGameInfo_raw (lift_game g) (last (raw_games (lift_season s)))
            else lift_game g)\<lparr>raw_index := Some (length (raw_games (lift_season s)))\<rparr> =
           lift_game g2"
    by (simp add: g2_def entered_def lift_season_def last_map setPreviousGameInfo_lift)
       (simp add: lift_game_def)
  have c: "calculateScores_raw (lift_game g2) (map lift_score (season_scores s)) =
           Inr (map lift_score (calculateScores g2 (season_scores s)))"
    by (rule calculateScores_lift)
  have srt: "sort_js (\<lambda>a b. getOverallScore_raw b - getOverallScore_raw a) (map lift_score xs) =
             map lift_score (sort_js (\<lambda>a b. getOverallScore b - getOverallScore a) xs)" for xs
    by (rule sort_js_map) (simp add: getOverallScore_lift)
  have l: "raw_season_scores (lift_season s) = map lift_score (season_scores s)"
    "raw_games (lift_season s) = map lift_game (games s)"
    by (simp_all add: lift_season_def)
  show ?thesis
    unfolding addGame_raw_def Let_def e
    by (simp add: l c srt sortScores_raw_def)
       (simp add: lift_season_def addGame_def Let_def sortScores_def g2_def entered_def)
qed

lemma new_Game_lift:
  "new_Game_raw d (map (\<lambda>p. Some (Ref p)) r)
     (map_option (map (\<lambda>ko. (Ref (fst ko), Ref (snd ko)))) k) = lift_game (new_Game d r k)"
  by (cases k) (simp_all add: new_Game_raw_def new_Game_def lift_game_def)

lemma lift_entry_tuple:
  "lift_entry (d, r, k, flag) =
     (d, map (\<lambda>p. Some (Ref p)) r,
      map_option (map (\<lambda>ko. (Ref (fst ko), Ref (snd ko)))) k, flag)"
  by (simp add: lift_entry_def)

lemma add_entry_tuple: "add_entry s (d, r, k, flag) = addGame s (new_Game d r k) flag"
  by (simp add: add_entry_def)

lemma add_entries_lift:
  "add_entries_raw (lift_season s) (map lift_entry es) = Inr (lift_season (foldl add_entry s es))"
proof (induction es arbitrary: s)
  case Nil
  then show ?case by simp
next
  case (Cons e es)
  obtain d r k flag where e: "e = (d, r, k, flag)" by (cases e) auto
  show ?case
    by (simp add: e lift_entry_tuple new_Game_lift addGame_raw_lift Cons.IH add_entry_tuple)
qed

lemma season_of_lift: "season_of_raw n (map lift_entry es) = Inr (lift_season (season_of n es))"
proof -
  have "new_Season_raw n = lift_season (new_Season n)"
    by (simp add: new_Season_raw_def new_Season_def lift_season_def)
  then show ?thesis by (simp add: season_of_raw_def season_of_def add_entries_lift)
qed

lemma dense_slots:
  "list_all (\<lambda>slot. case slot of Some (Ref p) \<Rightarrow> p \<in> set players | _ \<Rightarrow> False) r \<Longrightarrow>
   \<exists>ps. r = map (\<lambda>p. Some (Ref p)) ps \<and> list_all (\<lambda>p. p \<in> set players) ps"
proof (induction r)
  case Nil
  then show ?case by simp
next
  case (Cons slot r)
  then obtain ps where ps: "r = map (\<lambda>p. Some (Ref p)) ps" "list_all (\<lambda>p. p \<in> set players) ps"
    by auto
  from Cons.prems obtain p where p: "slot = Some (Ref p)" "p \<in> set players"
    by (auto split: option.splits ref.splits)
  show ?case
    by (rule exI [of _ "p # ps"]) (use ps p in simp)
qed

lemma dense_knockouts:
  "list_all (\<lambda>ko. case ko of (Ref a, Ref b) \<Rightarrow> a \<in> set players \<and> b \<in> set players
                   | _ \<Rightarrow> False) ks \<Longrightarrow>
   \<exists>kos. ks = map (\<lambda>ko. (Ref (fst ko), Ref (snd ko))) kos \<and>
         list_all (\<lambda>ko. fst ko \<in> set players \<and> snd ko \<in> set players) kos"
proof (induction ks)
  case Nil
  then show ?case by simp
next
  case (Cons ko ks)
  then obtain kos where kos: "ks = map (\<lambda>ko. (Ref (fst ko), Ref (snd ko))) kos"
    "list_all (\<lambda>ko. fst ko \<in> set players \<and> snd ko \<in> set players) kos"
    by auto
  from Cons.prems obtain a b where ab: "ko = (Ref a, Ref b)" "a \<in> set players" "b \<in> set players"
    by (cases ko) (auto split: ref.splits)
  show ?case
    by (rule exI [of _ "(a, b) # kos"]) (use kos ab in simp)
qed

lemma dense_entry_lift:
  assumes "dense_entry players e"
  shows "\<exists>e0. e = lift_entry e0 \<and> entry_ok players e0"
proof -
  obtain d r k flag where e: "e = (d, r, k, flag)" by (cases e) auto
  from assms dense_slots [of players r] obtain ps where
    ps: "r = map (\<lambda>p. Some (Ref p)) ps" "list_all (\<lambda>p. p \<in> set players) ps"
    by (auto simp: dense_entry_def e)
  have f: "falsy flag" using assms by (simp add: dense_entry_def e)
  show ?thesis
  proof (cases k)
    case None
    show ?thesis
      by (rule exI [of _ "(d, ps, None, flag)"])
         (use ps f None in \<open>simp add: e lift_entry_tuple entry_ok_def\<close>)
  next
    case (Some ks)
    from assms dense_knockouts [of players ks] obtain kos where
      kos: "ks = map (\<lambda>ko. (Ref (fst ko), Ref (snd ko))) kos"
      "list_all (\<lambda>ko. fst ko \<in> set players \<and> snd ko \<in> set players) kos"
      by (auto simp: dense_entry_def e Some)
    show ?thesis
      by (rule exI [of _ "(d, ps, Some kos, flag)"])
         (use ps f Some kos in \<open>simp add: e lift_entry_tuple entry_ok_def\<close>)
  qed
qed

lemma dense_entries_lift:
  "list_all (dense_entry players) es \<Longrightarrow>
   \<exists>es0. es = map lift_entry es0 \<and> list_all (entry_ok players) es0"
proof (induction es)
  case Nil
  then show ?case by simp
next
  case (Cons e es)
  then obtain es0 where es0: "es = map lift_entry es0" "list_all (entry_ok players) es0"
    by auto
  from Cons.prems dense_entry_lift [of players e] obtain e0 where
    e0: "e = lift_entry e0" "entry_ok players e0" by auto
  show ?case
    by (rule exI [of _ "e0 # es0"]) (use es0 e0 in simp)
qed

section \<open>Saving and loading a season\<close>

lemma result_ids_lift:
  "result_ids (map (\<lambda>p. Some (Ref p)) r) = Inr (map (\<lambda>p. Some (player_id p)) r)"
  by (induction r) simp_all

lemma knockout_ids_lift:
  "knockout_ids (map (\<lambda>ko. (Ref (fst ko), Ref (snd ko))) ks) =
     Inr (map (\<lambda>ko. (player_id (fst ko), player_id (snd ko))) ks)"
  by (induction ks) simp_all

lemma Game_toObject_lift:
  "Game_toObject (lift_game g) =
     Inr \<lparr>obj_date = (case date g of (y, m, d) \<Rightarrow> (y, m + 1, d)),
          obj_results = map (\<lambda>p. Some (player_id p)) (results g),
          obj_knockouts = map (\<lambda>ko. (player_id (fst ko), player_id (snd ko))) (knockouts g)\<rparr>"
  by (simp add: Game_toObject_def lift_game_def result_ids_lift knockout_ids_lift)

lemma lookup_player_id:
  assumes "directory players" "p \<in> set players"
  shows "lookup_player players (Num (player_id p)) = Ref p"
proof -
  obtain i where i: "i < length players" "players ! i = p"
    using assms(2) by (auto simp: in_set_conv_nth)
  have "map (\<lambda>p. player_id p) players ! i = [0..<length players] ! i"
    using assms(1) by (simp add: directory_def)
  then have "player_id p = i" using i by simp
  then show ?thesis using i by (simp add: lookup_player_def)
qed

lemma Game_fromObject_lift:
  assumes "directory players"
    and "list_all (\<lambda>p. p \<in> set players) (results g)"
    and "list_all (\<lambda>ko. fst ko \<in> set players \<and> snd ko \<in> set players) (knockouts g)"
    and "Game_toObject (lift_game g) = Inr obj"
  shows "Game_fromObject rd players (json_game obj) =
     lift_game (new_Game (rd (case date g of (y, m, d) \<Rightarrow> (y, m + 1, d))) (results g)
       (Some (knockouts g)))"
proof -
  have r: "map (\<lambda>p. Some (lookup_player players (Num (player_id p)))) (results g) =
           map (\<lambda>p. Some (Ref p)) (results g)"
    using assms(1,2) by (simp add: list_all_iff lookup_player_id)
  have k: "map (\<lambda>ko. (lookup_player players (Num (player_id (fst ko))),
                      lookup_player players (Num (player_id (snd ko))))) (knockouts g) =
           map (\<lambda>ko. (Ref (fst ko), Ref (snd ko))) (knockouts g)"
    using assms(1,3) by (auto simp: list_all_iff lookup_player_id)
  have obj: "obj =
     \<lparr>obj_date = (case date g of (y, m, d) \<Rightarrow> (y, m + 1, d)),
      obj_results = map (\<lambda>p. Some (player_id p)) (results g),
      obj_knockouts = map (\<lambda>ko. (player_id (fst ko), player_id (snd ko))) (knockouts g)\<rparr>"
    using assms(4) by (simp add: Game_toObject_lift)
  have "Game_fromObject rd players (json_game obj) =
     new_Game_raw (rd (case date g of (y, m, d) \<Rightarrow> (y, m + 1, d)))
       (map (\<lambda>p. Some (Ref p)) (results g))
       (Some (map (\<lambda>ko. (Ref (fst ko), Ref (snd ko))) (knockouts g)))"
    by (simp add: obj Game_fromObject_def json_game_def json_id_def comp_def r k)
  also have "\<dots> = lift_game (new_Game (rd (case date g of (y, m, d) \<Rightarrow> (y, m + 1, d)))
       (results g) (Some (knockouts g)))"
    using new_Game_lift [of _ "results g" "Some (knockouts g)"] by simp
  finally show ?thesis .
qed

lemma game_objs_lift: "\<exists>objs. game_objs (map lift_game gs) = Inr objs"
  by (induction gs) (auto simp: Game_toObject_lift)

lemma replay_lift:
  assumes "directory players"
  shows "list_all (\<lambda>g. list_all (\<lambda>p. p \<in> set players) (results g) \<and>
            list_all (\<lambda>ko. fst ko \<in> set players \<and> snd ko \<in> set players) (knockouts g)) gs \<Longrightarrow>
         game_objs (map lift_game gs) = Inr objs \<Longrightarrow>
         replay rd players (lift_season s) (map json_game objs) =
           Inr (lift_season (foldl add_entry s (map (saved_entry rd) gs)))"
proof (induction gs arbitrary: s objs)
  case Nil
  then show ?case by simp
next
  case (Cons g gs)
  obtain obj where obj: "Game_toObject (lift_game g) = Inr obj"
    by (simp add: Game_toObject_lift)
  obtain objs' where objs': "game_objs (map lift_game gs) = Inr objs'"
    using game_objs_lift by blast
  have o: "objs = obj # objs'" using Cons.prems(2) obj objs' by simp
  have g: "list_all (\<lambda>p. p \<in> set players) (results g)"
    "list_all (\<lambda>ko. fst ko \<in> set players \<and> snd ko \<in> set players) (knockouts g)"
    using Cons.prems(1) by simp_all
  have f: "Game_fromObject rd players (json_game obj) =
     lift_game (new_Game (rd (case date g of (y, m, d) \<Rightarrow> (y, m + 1, d))) (results g)
       (Some (knockouts g)))"
    by (rule Game_fromObject_lift [OF assms g obj])
  have rest: "list_all (\<lambda>g. list_all (\<lambda>p. p \<in> set players) (results g) \<and>
            list_all (\<lambda>ko. fst ko \<in> set players \<and> snd ko \<in> set players) (knockouts g)) gs"
    using Cons.prems(1) by simp
  show ?case
    using Cons.IH [OF rest objs']
    by (simp add: o f addGame_raw_lift saved_entry_def add_entry_tuple)
qed

lemma game_fields_entered:
  "date (entered s g) = date g" "results (entered s g) = results g"
  "knockouts (entered s g) = knockouts g"
  by (simp_all add: entered_def setPreviousGameInfo_def)

lemma saved_entry_entered:
  "saved_entry rd (entered s (new_Game d r k)) = reloaded_entry rd (d, r, k, flag)"
  by (simp add: saved_entry_def reloaded_entry_def game_fields_entered new_Game_def)

lemma games_add_entry:
  "games (add_entry s (d, r, k, flag)) = games s @ [entered s (new_Game d r k)]"
  by (simp add: add_entry_tuple games_addGame_entered)

lemma saved_entries:
  "map (saved_entry rd) (games (foldl add_entry s es)) =
     map (saved_entry rd) (games s) @ map (reloaded_entry rd) es"
proof (induction es arbitrary: s)
  case Nil
  then show ?case by simp
next
  case (Cons e es)
  obtain d r k flag where e: "e = (d, r, k, flag)" by (cases e) auto
  show ?case
    by (simp add: Cons.IH e games_add_entry saved_entry_entered [of rd s d r k flag])
qed

lemma games_in_directory:
  assumes "list_all (entry_ok players) es"
    and "list_all (\<lambda>g. list_all (\<lambda>p. p \<in> set players) (results g) \<and>
            list_all (\<lambda>ko. fst ko \<in> set players \<and> snd ko \<in> set players) (knockouts g))
          (games s)"
  shows "list_all (\<lambda>g. list_all (\<lambda>p. p \<in> set players) (results g) \<and>
            list_all (\<lambda>ko. fst ko \<in> set players \<and> snd ko \<in> set players) (knockouts g))
          (games (foldl add_entry s es))"
  using assms
proof (induction es arbitrary: s)
  case Nil
  then show ?case by simp
next
  case (Cons e es)
  obtain d r k flag where e: "e = (d, r, k, flag)" by (cases e) auto
  have "list_all (\<lambda>g. list_all (\<lambda>p. p \<in> set players) (results g) \<and>
            list_all (\<lambda>ko. fst ko \<in> set players \<and> snd ko \<in> set players) (knockouts g))
          (games (add_entry s e))"
    using Cons.prems
    by (simp add: e games_add_entry game_fields_entered entry_ok_def new_Game_def)
  then show ?case using Cons by simp
qed

text \<open>The date of a game plays no part in the scoring or in the previous game's marks.\<close>

lemma bonus_undated:
  "calculateFishChipBonus (undated g) p = calculateFishChipBonus g p"
  "calculateBountyBonus (undated g) p = calculateBountyBonus g p"
  by (simp_all add: undated_def calculateFishChipBonus_def getPaidPlayers_def
      calculateBountyBonus_def split: option.split)

lemma set_undated:
  "setScore (undated g) v s = setScore g v s"
  "setBonusPoints (undated g) v s = setBonusPoints g v s"
  by (simp_all add: undated_def setScore_def setBonusPoints_def split: option.split)

lemma score_finisher_undated: "score_finisher (undated g) pts ss i = score_finisher g pts ss i"
proof -
  have "results (undated g) = results g" by (simp add: undated_def)
  then show ?thesis by (simp add: score_finisher_def bonus_undated set_undated)
qed

lemma calculateScores_undated: "calculateScores (undated g) ss = calculateScores g ss"
proof -
  have "score_finisher (undated g) pts = score_finisher g pts" for pts
    by (simp add: fun_eq_iff score_finisher_undated)
  moreover have "results (undated g) = results g" by (simp add: undated_def)
  ultimately show ?thesis by (simp add: calculateScores_def)
qed

lemma undated_setPreviousGameInfo:
  "undated (setPreviousGameInfo g prev) = setPreviousGameInfo (undated g) (undated prev)"
  by (simp add: undated_def setPreviousGameInfo_def)

lemma undated_entered:
  assumes "map undated (games s') = map undated (games s)" "undated g' = undated g"
  shows "undated (entered s' g') = undated (entered s g)"
proof -
  have len: "length (games s') = length (games s)"
    using assms(1) by (metis length_map)
  have i: "undated (x\<lparr>game_index := j\<rparr>) = (undated x)\<lparr>game_index := j\<rparr>" for x j
    by (simp add: undated_def)
  show ?thesis
  proof (cases "games s = []")
    case True
    then have "games s' = []" using len by simp
    then show ?thesis using True assms(2) by (simp add: entered_def i)
  next
    case False
    then have ne: "games s' \<noteq> []" using len by auto
    have "undated (last (games s')) = undated (last (games s))"
      using assms(1) False ne by (metis last_map)
    then show ?thesis
      using False ne assms(2) len by (simp add: entered_def i undated_setPreviousGameInfo)
  qed
qed

lemma reload_step:
  assumes "season_scores s' = season_scores s"
    and "map undated (games s') = map undated (games s)"
    and "falsy flag"
  shows "season_scores (add_entry s' (reloaded_entry rd (d, r, k, flag))) =
           season_scores (add_entry s (d, r, k, flag)) \<and>
         map undated (games (add_entry s' (reloaded_entry rd (d, r, k, flag)))) =
           map undated (games (add_entry s (d, r, k, flag)))"
proof -
  define g where "g = new_Game d r k"
  define g' where "g' = new_Game (rd (case d of (y, m, dd) \<Rightarrow> (y, m + 1, dd))) r
                          (Some (case k of None \<Rightarrow> [] | Some ks \<Rightarrow> ks))"
  have a: "add_entry s (d, r, k, flag) = addGame s g flag"
    by (simp add: add_entry_tuple g_def)
  have a': "add_entry s' (reloaded_entry rd (d, r, k, flag)) = addGame s' g' (Some False)"
    by (simp add: reloaded_entry_def add_entry_tuple g'_def)
  have "undated g' = undated g"
    by (simp add: g_def g'_def undated_def new_Game_def)
  then have u: "undated (entered s' g') = undated (entered s g)"
    using assms(2) by (rule undated_entered [rotated])
  have c: "calculateScores (entered s' g') (season_scores s') =
           calculateScores (entered s g) (season_scores s)"
    using calculateScores_undated [of "entered s' g'"] calculateScores_undated [of "entered s g"]
      u assms(1) by simp
  have f: "falsy (Some False)" by (simp add: falsy_def)
  show ?thesis
    unfolding a a'
    using assms(2,3) u c f by (simp add: season_scores_addGame games_addGame_entered)
qed

lemma reload_entries:
  assumes "list_all (entry_ok players) es"
    and "season_scores s' = season_scores s"
    and "map undated (games s') = map undated (games s)"
  shows "season_scores (foldl add_entry s' (map (reloaded_entry rd) es)) =
           season_scores (foldl add_entry s es) \<and>
         map undated (games (foldl add_entry s' (map (reloaded_entry rd) es))) =
           map undated (games (foldl add_entry s es))"
  using assms
proof (induction es arbitrary: s s')
  case Nil
  then show ?case by simp
next
  case (Cons e es)
  obtain d r k flag where e: "e = (d, r, k, flag)" by (cases e) auto
  have f: "falsy flag" using Cons.prems(1) by (simp add: e entry_ok_def)
  note st = reload_step [OF Cons.prems(2,3) f, of rd d r k]
  have "list_all (entry_ok players) es" using Cons.prems(1) by simp
  from Cons.IH [OF this st [THEN conjunct1] st [THEN conjunct2]]
  show ?case by (simp add: e)
qed

lemma season_name_entries: "season_name (foldl add_entry s es) = season_name s"
  by (induction es arbitrary: s) (simp_all add: add_entry_def season_name_addGame split: prod.split)

lemma Season_toObject_lift:
  "\<exists>objs. game_objs (map lift_game (games S)) = Inr objs \<and>
     Season_toObject (lift_season S) = Inr \<lparr>obj_name = season_name S, obj_games = objs\<rparr>"
proof -
  obtain objs where "game_objs (map lift_game (games S)) = Inr objs"
    using game_objs_lift by blast
  then show ?thesis by (simp add: Season_toObject_def lift_season_def)
qed

lemma reload_lift:
  assumes "directory players" "list_all (entry_ok players) es"
  shows "reload rd players (lift_season (season_of n es)) =
           Inr (lift_season (season_of n (map (reloaded_entry rd) es)))"
proof -
  define S where "S = season_of n es"
  obtain objs where objs: "game_objs (map lift_game (games S)) = Inr objs"
    "Season_toObject (lift_season S) = Inr \<lparr>obj_name = season_name S, obj_games = objs\<rparr>"
    using Season_toObject_lift by blast
  have name: "season_name S = n"
    by (simp add: S_def season_of_def season_name_entries new_Season_def)
  have "list_all (\<lambda>g. list_all (\<lambda>p. p \<in> set players) (results g) \<and>
            list_all (\<lambda>ko. fst ko \<in> set players \<and> snd ko \<in> set players) (knockouts g))
          (games S)"
    unfolding S_def season_of_def
    by (rule games_in_directory [OF assms(2)]) (simp add: new_Season_def)
  from replay_lift [OF assms(1) this objs(1), of rd "new_Season n"]
  have "replay rd players (lift_season (new_Season n)) (map json_game objs) =
        Inr (lift_season (foldl add_entry (new_Season n) (map (reloaded_entry rd) es)))"
    by (simp add: S_def season_of_def saved_entries new_Season_def)
  moreover have "lift_season (new_Season n) = new_Season_raw n"
    by (simp add: new_Season_raw_def new_Season_def lift_season_def)
  ultimately show ?thesis
    unfolding S_def [symmetric]
    by (simp add: reload_def objs(2) Season_fromObject_def json_season_def name season_of_def)
qed

text \<open>
  C6, as the code has it. A season that the program builds from games in which every
  finishing position is filled with a Player of the directory (ids being positions, as
  \<^verbatim>\<open>addPlayer\<close> assigns them) is built, saved and loaded without an exception, and
  the loaded season has the same Score collection: the same games played, wins, bonus
  points, lowest weekly points, recorded totals (which fix the average) and overall score
  for every player, and the same bounty players and fish-chip holder in every game.
\<close>

theorem reload_dense_season:
  assumes "directory players" and "list_all (dense_entry players) es"
  shows "\<exists>s s'. season_of_raw n es = Inr s \<and> reload read_date players s = Inr s'
     \<and> raw_season_scores s' = raw_season_scores s
     \<and> map getGamesPlayed_raw (raw_season_scores s') =
         map getGamesPlayed_raw (raw_season_scores s)
     \<and> map raw_wins (raw_season_scores s') = map raw_wins (raw_season_scores s)
     \<and> map getBonusPoints_raw (raw_season_scores s') =
         map getBonusPoints_raw (raw_season_scores s)
     \<and> map getLowestWeeklyPoints_raw (raw_season_scores s') =
         map getLowestWeeklyPoints_raw (raw_season_scores s)
     \<and> map getGameScores_raw (raw_season_scores s') =
         map getGameScores_raw (raw_season_scores s)
     \<and> map getOverallScore_raw (raw_season_scores s') =
         map getOverallScore_raw (raw_season_scores s)
     \<and> map raw_bountyPlayers (raw_games s') = map raw_bountyPlayers (raw_games s)
     \<and> map raw_fishChipper (raw_games s') = map raw_fishChipper (raw_games s)"
proof -
  obtain es0 where es0: "es = map lift_entry es0" "list_all (entry_ok players) es0"
    using dense_entries_lift [OF assms(2)] by blast
  define S where "S = season_of n es0"
  define S' where "S' = season_of n (map (reloaded_entry read_date) es0)"
  have b: "season_of_raw n es = Inr (lift_season S)"
    by (simp add: es0(1) S_def season_of_lift)
  have r: "reload read_date players (lift_season S) = Inr (lift_season S')"
    unfolding S_def S'_def by (rule reload_lift [OF assms(1) es0(2)])
  have q: "season_scores S' = season_scores S" "map undated (games S') = map undated (games S)"
    using reload_entries [OF es0(2), of "new_Season n" "new_Season n" read_date]
    by (simp_all add: S_def S'_def season_of_def)
  have sc: "raw_season_scores (lift_season S') = raw_season_scores (lift_season S)"
    using q(1) by (simp add: lift_season_def)
  have "map (\<lambda>g. raw_bountyPlayers (lift_game g)) (map undated (games S')) =
        map (\<lambda>g. raw_bountyPlayers (lift_game g)) (map undated (games S))"
       "map (\<lambda>g. raw_fishChipper (lift_game g)) (map undated (games S')) =
        map (\<lambda>g. raw_fishChipper (lift_game g)) (map undated (games S))"
    using q(2) by simp_all
  then have g: "map raw_bountyPlayers (raw_games (lift_season S')) =
                map raw_bountyPlayers (raw_games (lift_season S))"
               "map raw_fishChipper (raw_games (lift_season S')) =
                map raw_fishChipper (raw_games (lift_season S))"
    by (simp_all add: lift_season_def lift_game_def undated_def comp_def)
  show ?thesis
    using b r sc g by simp
qed

theorem reload_dense_season_witness:
  "directory six \<and> list_all (dense_entry six) (map lift_entry [week1, week2])
   \<and> (\<exists>s s'. season_of_raw ''Spring'' (map lift_entry [week1, week2]) = Inr s
        \<and> reload read_back six s = Inr s'
        \<and> map getOverallScore_raw (raw_season_scores s') = [28, 26, 22, 19, 16, 12]
        \<and> map raw_bountyPlayers (raw_games s') = [None, Some [Ref pA, Ref pB, Ref pC]]
        \<and> map raw_fishChipper (raw_games s') = [None, Some (Ref pF)])"
proof -
  have d: "directory six" by code_simp
  have e: "list_all (dense_entry six) (map lift_entry [week1, week2])" by code_simp
  have v: "map_sum id (map getOverallScore_raw \<circ> raw_season_scores)
             (season_of_raw ''Spring'' (map lift_entry [week1, week2])) =
           Inr [28, 26, 22, 19, 16, 12]"
    "map_sum id (map raw_bountyPlayers \<circ> raw_games)
             (season_of_raw ''Spring'' (map lift_entry [week1, week2])) =
           Inr [None, Some [Ref pA, Ref pB, Ref pC]]"
    "map_sum id (map raw_fishChipper \<circ> raw_games)
             (season_of_raw ''Spring'' (map lift_entry [week1, week2])) =
           Inr [None, Some (Ref pF)]"
    by code_simp+
  from reload_dense_season [OF d e, of "''Spring''" read_back] obtain s s' where
    s: "season_of_raw ''Spring'' (map lift_entry [week1, week2]) = Inr s"
      "reload read_back six s = Inr s'"
      "map getOverallScore_raw (raw_season_scores s') =
         map getOverallScore_raw (raw_season_scores s)"
      "map raw_bountyPlayers (raw_games s') = map raw_bountyPlayers (raw_games s)"
      "map raw_fishChipper (raw_games s') = map raw_fishChipper (raw_games s)"
    by blast
  have w: "map getOverallScore_raw (raw_season_scores s') = [28, 26, 22, 19, 16, 12]"
    "map raw_bountyPlayers (raw_games s') = [None, Some [Ref pA, Ref pB, Ref pC]]"
    "map raw_fishChipper (raw_games s') = [None, Some (Ref pF)]"
    using v s by simp_all
  have "\<exists>s s'. season_of_raw ''Spring'' (map lift_entry [week1, week2]) = Inr s
        \<and> reload read_back six s = Inr s'
        \<and> map getOverallScore_raw (raw_season_scores s') = [28, 26, 22, 19, 16, 12]
        \<and> map raw_bountyPlayers (raw_games s') = [None, Some [Ref pA, Ref pB, Ref pC]]
        \<and> map raw_fishChipper (raw_games s') = [None, Some (Ref pF)]"
    by (rule exI [of _ s], rule exI [of _ s']) (simp only: s(1,2) w simp_thms)
  then show ?thesis using d e by (simp only: simp_thms)
qed

text \<open>
  C6 as stated fails on a season with an unfilled position. Two games of A, B, C and D
  entered at positions 1, 3, 4 and 5, A knocking out C in the second: in the session the
  bounties of the second game are on A, B and C, A scores 16 in it and 31 overall; after
  saving and loading they are on A, \<^verbatim>\<open>undefined\<close> and B, and A scores 15 and 30.
\<close>

theorem reload_gaps_differ:
  "map_sum id (map raw_bountyPlayers \<circ> raw_games) (season_of_raw ''Spring'' [gap1, gap2]) =
     Inr [None, Some [Ref pA, Ref pB, Ref pC]]
   \<and> map_sum id (map getOverallScore_raw \<circ> raw_season_scores)
       (season_of_raw ''Spring'' [gap1, gap2]) = Inr [31, 26, 22, 18, 14]
   \<and> map_sum id (map raw_bountyPlayers \<circ> raw_games) gaps_reloaded =
     Inr [None, Some [Ref pA, Undefined, Ref pB]]
   \<and> map_sum id (map getOverallScore_raw \<circ> raw_season_scores) gaps_reloaded =
     Inr [30, 26, 22, 18, 14]
   \<and> map_sum id (map getGameScores_raw \<circ> raw_season_scores)
       (season_of_raw ''Spring'' [gap1, gap2]) =
     Inr [[15, 16], [13, 13], [11, 11], [9, 9], [7, 7]]
   \<and> map_sum id (map getGameScores_raw \<circ> raw_season_scores) gaps_reloaded =
     Inr [[15, 15], [13, 13], [11, 11], [9, 9], [7, 7]]"
  by code_simp

end
